theory Spec2Isabelle
  imports Main "HOL-Library.Sublist" "HOL-Library.AList" "HOL-Library.Monad_Syntax"
begin

section \<open>Strings\<close>

text \<open>
  A JavaScript string is a sequence of UTF-16 code units.  A code unit is modelled as a
  natural number, a string as a list of them.  String literals of the source are written
  with \<open>js\<close>; the backslash, which an Isabelle string literal cannot hold, is \<open>BS\<close>.
\<close>

type_synonym jschar = nat
type_synonym jsstring = "jschar list"

definition js :: "string \<Rightarrow> jsstring" where
  "js = map of_char"

definition BS :: jschar where
  "BS = 92"

definition isLetter :: "jschar \<Rightarrow> bool" where
  "isLetter c = ((97 \<le> c \<and> c \<le> 122) \<or> (65 \<le> c \<and> c \<le> 90))"

definition isDigit :: "jschar \<Rightarrow> bool" where
  "isDigit c = (48 \<le> c \<and> c \<le> 57)"

definition isLineTerminator :: "jschar \<Rightarrow> bool" where
  "isLineTerminator c = (c = 10 \<or> c = 13 \<or> c = 8232 \<or> c = 8233)"

definition isSpace :: "jschar \<Rightarrow> bool" where
  "isSpace c = (c = 9 \<or> c = 10 \<or> c = 11 \<or> c = 12 \<or> c = 13 \<or> c = 32 \<or> c = 160 \<or> c = 5760
     \<or> (8192 \<le> c \<and> c \<le> 8202) \<or> c = 8232 \<or> c = 8233 \<or> c = 8239 \<or> c = 8287
     \<or> c = 12288 \<or> c = 65279)"

definition trim :: "jsstring \<Rightarrow> jsstring" where
  "trim s = rev (dropWhile isSpace (rev (dropWhile isSpace s)))"

fun decimal :: "nat \<Rightarrow> jsstring" where
  "decimal n = (if n < 10 then [48 + n] else decimal (n div 10) @ [48 + n mod 10])"

declare decimal.simps [simp del]

definition lastSegment :: "jsstring \<Rightarrow> jsstring" where
  "lastSegment path = rev (takeWhile (\<lambda>c. c \<noteq> 47) (rev path))"

section \<open>Regular expressions\<close>

datatype greed = Greedy | Lazy

datatype re =
    Lit jsstring
  | Cls "jschar \<Rightarrow> bool"
  | Seq re re
  | Alt re re
  | Star greed re
  | Grp nat re
  | Ahead bool re
  | Behind bool "jschar \<Rightarrow> bool"
  | Bol

type_synonym captures = "nat \<Rightarrow> jsstring option"
type_synonym mstate = "jsstring \<times> jsstring \<times> captures"
type_synonym cont = "mstate \<Rightarrow> mstate option"

definition rest :: "mstate \<Rightarrow> jsstring" where
  "rest s = fst (snd s)"

definition caps :: "mstate \<Rightarrow> captures" where
  "caps s = snd (snd s)"

primrec star :: "greed \<Rightarrow> nat \<Rightarrow> (cont \<Rightarrow> cont) \<Rightarrow> cont \<Rightarrow> cont" where
  "star g 0 body k s = k s"
| "star g (Suc n) body k s =
     (case g of
        Greedy \<Rightarrow>
          (case body (\<lambda>t. if length (rest t) < length (rest s) then star g n body k t else None) s of
             Some r \<Rightarrow> Some r
           | None \<Rightarrow> k s)
      | Lazy \<Rightarrow>
          (case k s of
             Some r \<Rightarrow> Some r
           | None \<Rightarrow> body (\<lambda>t. if length (rest t) < length (rest s) then star g n body k t else None) s))"

primrec matchRe :: "re \<Rightarrow> cont \<Rightarrow> cont" where
  "matchRe (Lit l) k s =
     (case s of (b, r, c) \<Rightarrow> if prefix l r then k (rev l @ b, drop (length l) r, c) else None)"
| "matchRe (Cls p) k s =
     (case s of (b, r, c) \<Rightarrow>
        (case r of [] \<Rightarrow> None | x # r' \<Rightarrow> if p x then k (x # b, r', c) else None))"
| "matchRe (Seq a b) k s = matchRe a (matchRe b k) s"
| "matchRe (Alt a b) k s = (case matchRe a k s of Some t \<Rightarrow> Some t | None \<Rightarrow> matchRe b k s)"
| "matchRe (Star g a) k s = star g (length (rest s)) (matchRe a) k s"
| "matchRe (Grp i a) k s =
     matchRe a (\<lambda>t. case t of (b, r, c) \<Rightarrow>
                  k (b, r, c(i \<mapsto> take (length (rest s) - length r) (rest s)))) s"
| "matchRe (Ahead pos a) k s =
     (case matchRe a Some s of
        Some t \<Rightarrow> if pos then k (fst s, rest s, caps t) else None
      | None \<Rightarrow> if pos then None else k s)"
| "matchRe (Behind pos p) k s =
     (case s of (b, r, c) \<Rightarrow>
        if (case b of [] \<Rightarrow> False | x # b' \<Rightarrow> p x) = pos then k s else None)"
| "matchRe Bol k s = (if fst s = [] then k s else None)"

primrec ngroups :: "re \<Rightarrow> nat" where
  "ngroups (Lit l) = 0"
| "ngroups (Cls p) = 0"
| "ngroups (Seq a b) = max (ngroups a) (ngroups b)"
| "ngroups (Alt a b) = max (ngroups a) (ngroups b)"
| "ngroups (Star g a) = ngroups a"
| "ngroups (Grp i a) = max i (ngroups a)"
| "ngroups (Ahead pos a) = ngroups a"
| "ngroups (Behind pos p) = 0"
| "ngroups Bol = 0"

record rmatch =
  matched :: jsstring
  groups :: captures
  ngroup :: nat
  before :: jsstring
  after :: jsstring

definition exec :: "re \<Rightarrow> jsstring \<Rightarrow> jsstring \<Rightarrow> rmatch option" where
  "exec r b s =
     (case matchRe r Some (b, s, \<lambda>i. None) of
        None \<Rightarrow> None
      | Some t \<Rightarrow> Some \<lparr>matched = take (length s - length (rest t)) s, groups = caps t,
                         ngroup = ngroups r, before = rev b, after = rest t\<rparr>)"

primrec scanMatches ::
  "re \<Rightarrow> nat \<Rightarrow> jsstring \<Rightarrow> jsstring \<Rightarrow> jsstring \<Rightarrow> (jsstring \<times> rmatch) list \<times> jsstring" where
  "scanMatches r skip b u [] =
     (if skip = 0
      then (case exec r b [] of None \<Rightarrow> ([], rev u) | Some mt \<Rightarrow> ([(rev u, mt)], []))
      else ([], rev u))"
| "scanMatches r skip b u (x # xs) =
     (case skip of
        Suc n \<Rightarrow> scanMatches r n (x # b) u xs
      | 0 \<Rightarrow>
          (case exec r b (x # xs) of
             None \<Rightarrow> scanMatches r 0 (x # b) (x # u) xs
           | Some mt \<Rightarrow>
               (case (if matched mt = [] then scanMatches r 0 (x # b) [x] xs
                      else scanMatches r (length (matched mt) - 1) (x # b) [] xs) of
                  (segs, rm) \<Rightarrow> ((rev u, mt) # segs, rm))))"

definition capture :: "rmatch \<Rightarrow> nat \<Rightarrow> jsstring" where
  "capture mt i = (case groups mt i of None \<Rightarrow> [] | Some g \<Rightarrow> g)"

fun expand :: "jsstring \<Rightarrow> rmatch \<Rightarrow> jsstring" where
  "expand [] mt = []"
| "expand [c] mt = [c]"
| "expand (c # d # t) mt =
     (if c \<noteq> 36 then c # expand (d # t) mt
      else if d = 36 then 36 # expand t mt
      else if d = 38 then matched mt @ expand t mt
      else if d = 96 then before mt @ expand t mt
      else if d = 39 then after mt @ expand t mt
      else if isDigit d then
        (case t of
           [] \<Rightarrow> (if 1 \<le> d - 48 \<and> d - 48 \<le> ngroup mt then capture mt (d - 48) else [c, d])
         | e # t' \<Rightarrow>
             if isDigit e \<and> 1 \<le> 10 * (d - 48) + (e - 48) \<and> 10 * (d - 48) + (e - 48) \<le> ngroup mt
             then capture mt (10 * (d - 48) + (e - 48)) @ expand t' mt
             else if isDigit e \<and> 10 * (d - 48) + (e - 48) = 0
             then c # d # e # expand t' mt
             else if 1 \<le> d - 48 \<and> d - 48 \<le> ngroup mt
             then capture mt (d - 48) @ expand (e # t') mt
             else c # d # expand (e # t') mt)
      else c # expand (d # t) mt)"

definition replaceAll :: "re \<Rightarrow> jsstring \<Rightarrow> jsstring \<Rightarrow> jsstring" where
  "replaceAll r tmpl s =
     (case scanMatches r 0 [] [] s of
        (segs, rm) \<Rightarrow> concat (map (\<lambda>(u, mt). u @ expand tmpl mt) segs) @ rm)"


fun substFn :: "(rmatch \<Rightarrow> jsstring option) \<Rightarrow> (jsstring \<times> rmatch) list \<Rightarrow> jsstring option" where
  "substFn f [] = Some []"
| "substFn f ((u, mt) # segs) =
     (case f mt of
        None \<Rightarrow> None
      | Some rep \<Rightarrow> (case substFn f segs of None \<Rightarrow> None | Some out \<Rightarrow> Some (u @ rep @ out)))"

definition replaceFn :: "re \<Rightarrow> (rmatch \<Rightarrow> jsstring option) \<Rightarrow> jsstring \<Rightarrow> jsstring option" where
  "replaceFn r f s =
     (case scanMatches r 0 [] [] s of
        (segs, rm) \<Rightarrow> (case substFn f segs of None \<Rightarrow> None | Some out \<Rightarrow> Some (out @ rm)))"

fun substSt ::
  "(rmatch \<Rightarrow> 'st \<Rightarrow> (jsstring \<times> 'st) option) \<Rightarrow> (jsstring \<times> rmatch) list \<Rightarrow> 'st
     \<Rightarrow> (jsstring \<times> 'st) option" where
  "substSt f [] st = Some ([], st)"
| "substSt f ((u, mt) # segs) st =
     (case f mt st of
        None \<Rightarrow> None
      | Some (rep, st') \<Rightarrow>
          (case substSt f segs st' of
             None \<Rightarrow> None
           | Some (out, st'') \<Rightarrow> Some (u @ rep @ out, st'')))"

definition replaceSt ::
  "re \<Rightarrow> (rmatch \<Rightarrow> 'st \<Rightarrow> (jsstring \<times> 'st) option) \<Rightarrow> jsstring \<Rightarrow> 'st
     \<Rightarrow> (jsstring \<times> 'st) option" where
  "replaceSt r f s st =
     (case scanMatches r 0 [] [] s of
        (segs, rm) \<Rightarrow>
          (case substSt f segs st of None \<Rightarrow> None | Some (out, st') \<Rightarrow> Some (out @ rm, st')))"

definition matchFirst :: "re \<Rightarrow> jsstring \<Rightarrow> rmatch option" where
  "matchFirst r s = (case fst (scanMatches r 0 [] [] s) of [] \<Rightarrow> None | (u, mt) # segs \<Rightarrow> Some mt)"

definition matchAll :: "re \<Rightarrow> jsstring \<Rightarrow> jsstring list" where
  "matchAll r s = map (\<lambda>(u, mt). matched mt) (fst (scanMatches r 0 [] [] s))"

definition replaceFirst :: "re \<Rightarrow> jsstring \<Rightarrow> jsstring \<Rightarrow> jsstring" where
  "replaceFirst r tmpl s =
     (case fst (scanMatches r 0 [] [] s) of
        [] \<Rightarrow> s
      | (u, mt) # segs \<Rightarrow> u @ expand tmpl mt @ after mt)"

definition splitRe :: "re \<Rightarrow> jsstring \<Rightarrow> jsstring list" where
  "splitRe r s = (case scanMatches r 0 [] [] s of (segs, rm) \<Rightarrow> map fst segs @ [rm])"

definition test :: "re \<Rightarrow> jsstring \<Rightarrow> bool" where
  "test r s = (matchFirst r s \<noteq> None)"

subsection \<open>Notation of the patterns\<close>

fun seqs :: "re list \<Rightarrow> re" where
  "seqs [] = Lit []"
| "seqs [a] = a"
| "seqs (a # b # rs) = Seq a (seqs (b # rs))"

fun alts :: "re list \<Rightarrow> re" where
  "alts [] = Lit []"
| "alts [a] = a"
| "alts (a # b # rs) = Alt a (alts (b # rs))"

definition Plus :: "re \<Rightarrow> re" where
  "Plus a = Seq a (Star Greedy a)"

definition Opt :: "re \<Rightarrow> re" where
  "Opt a = Alt a (Lit [])"

definition notCh :: "jschar \<Rightarrow> re" where
  "notCh c = Cls (\<lambda>x. x \<noteq> c)"

definition anyCh :: re where
  "anyCh = Cls (\<lambda>x. True)"

definition dot :: re where
  "dot = Cls (\<lambda>x. \<not> isLineTerminator x)"

definition cmd :: "string \<Rightarrow> jsstring" where
  "cmd name = BS # js name"

section \<open>The patterns of convertLaTeXToHTML\<close>

text \<open>\<^verbatim>\<open>/\\\[([\s\S]*?)\\\]/g\<close>\<close>
definition reBracket :: re where
  "reBracket = seqs [Lit (cmd ''[''), Grp 1 (Star Lazy anyCh), Lit (cmd '']'')]"

text \<open>\<^verbatim>\<open>/\$\$([\s\S]*?)\$\$/g\<close>\<close>
definition reDollars :: re where
  "reDollars = seqs [Lit (js ''$$''), Grp 1 (Star Lazy anyCh), Lit (js ''$$'')]"

text \<open>\<^verbatim>\<open>/\\begin\{NAME\*?\}([\s\S]*?)\\end\{NAME\*?\}/g\<close>\<close>
definition reEnv :: "string \<Rightarrow> re" where
  "reEnv name = seqs [Lit (cmd ''begin{'' @ js name), Opt (Lit (js ''*'')), Lit (js ''}''),
     Grp 1 (Star Lazy anyCh),
     Lit (cmd ''end{'' @ js name), Opt (Lit (js ''*'')), Lit (js ''}'')]"

text \<open>\<^verbatim>\<open>/\\begin\{NAME\}([\s\S]*?)\\end\{NAME\}/g\<close>\<close>
definition reEnv1 :: "string \<Rightarrow> re" where
  "reEnv1 name = seqs [Lit (cmd ''begin{'' @ js name @ js ''}''), Grp 1 (Star Lazy anyCh),
     Lit (cmd ''end{'' @ js name @ js ''}'')]"

text \<open>\<^verbatim>\<open>/\\begin\{align\}([\s\S]*?)\\end\{align\}/g\<close>\<close>
definition reAlignPlain :: re where
  "reAlignPlain = reEnv1 ''align''"

text \<open>\<^verbatim>\<open>/(?<!\$)\$(?!\$)((?:(?!\$).)*?)\$/g\<close>\<close>
definition reInline :: re where
  "reInline = seqs [Behind False (\<lambda>x. x = 36), Lit (js ''$''), Ahead False (Lit (js ''$'')),
     Grp 1 (Star Lazy (Seq (Ahead False (Lit (js ''$''))) dot)), Lit (js ''$'')]"

text \<open>\<^verbatim>\<open>/\\NAME\{[^}]*\}/g\<close>\<close>
definition reDirective :: "string \<Rightarrow> re" where
  "reDirective name = seqs [Lit (cmd name @ js ''{''), Star Greedy (notCh 125), Lit (js ''}'')]"

text \<open>\<^verbatim>\<open>/\\usepackage(?:\[[^\]]*\])?\{[^}]*\}/g\<close>\<close>
definition reUsepackage :: re where
  "reUsepackage = seqs [Lit (cmd ''usepackage''),
     Opt (seqs [Lit (js ''[''), Star Greedy (notCh 93), Lit (js '']'')]),
     Lit (js ''{''), Star Greedy (notCh 125), Lit (js ''}'')]"

text \<open>\<^verbatim>\<open>/\\NAME\{[^}]*\}\{[^}]*\}/g\<close>\<close>
definition reDirective2 :: "string \<Rightarrow> re" where
  "reDirective2 name = seqs [Lit (cmd name @ js ''{''), Star Greedy (notCh 125), Lit (js ''}{''),
     Star Greedy (notCh 125), Lit (js ''}'')]"

text \<open>\<^verbatim>\<open>/\\begin\{abstract\}[\s\S]*?\\end\{abstract\}/g\<close>\<close>
definition reAbstract :: re where
  "reAbstract = seqs [Lit (cmd ''begin{abstract}''), Star Lazy anyCh, Lit (cmd ''end{abstract}'')]"

text \<open>\<^verbatim>\<open>/\\begin\{table\*?\}[\s\S]*?\\end\{table\*?\}/g\<close>\<close>
definition reTable :: re where
  "reTable = seqs [Lit (cmd ''begin{table''), Opt (Lit (js ''*'')), Lit (js ''}''), Star Lazy anyCh,
     Lit (cmd ''end{table''), Opt (Lit (js ''*'')), Lit (js ''}'')]"

text \<open>\<^verbatim>\<open>/\\begin\{tabular\}[^}]*\}[\s\S]*?\\end\{tabular\}/g\<close>\<close>
definition reTabular :: re where
  "reTabular = seqs [Lit (cmd ''begin{tabular}''), Star Greedy (notCh 125), Lit (js ''}''),
     Star Lazy anyCh, Lit (cmd ''end{tabular}'')]"

text \<open>\<^verbatim>\<open>/\\NAME\{([^}]+)\}/g\<close>\<close>
definition reArg :: "string \<Rightarrow> re" where
  "reArg name = seqs [Lit (cmd name @ js ''{''), Grp 1 (Plus (notCh 125)), Lit (js ''}'')]"

text \<open>\<^verbatim>\<open>/\\NAME\*?\{([^}]+)\}/g\<close>\<close>
definition reStarArg :: "string \<Rightarrow> re" where
  "reStarArg name = seqs [Lit (cmd name), Opt (Lit (js ''*'')), Lit (js ''{''),
     Grp 1 (Plus (notCh 125)), Lit (js ''}'')]"

text \<open>\<^verbatim>\<open>/\\NAME\{([^}]*)\}/g\<close>\<close>
definition reArg0 :: "string \<Rightarrow> re" where
  "reArg0 name = seqs [Lit (cmd name @ js ''{''), Grp 1 (Star Greedy (notCh 125)), Lit (js ''}'')]"

text \<open>\<^verbatim>\<open>/\\texorpdfstring\{([^}]*)\}\{([^}]*)\}/g\<close>\<close>
definition reTexorpdfstring :: re where
  "reTexorpdfstring = seqs [Lit (cmd ''texorpdfstring{''), Grp 1 (Star Greedy (notCh 125)),
     Lit (js ''}{''), Grp 2 (Star Greedy (notCh 125)), Lit (js ''}'')]"

text \<open>\<^verbatim>\<open>/\\item\s+([^\n]*?)(?=\\item|\\end)/g\<close>\<close>
definition reItem :: re where
  "reItem = seqs [Lit (cmd ''item''), Plus (Cls isSpace), Grp 1 (Star Lazy (notCh 10)),
     Ahead True (Alt (Lit (cmd ''item'')) (Lit (cmd ''end'')))]"

text \<open>\<^verbatim>\<open>/\\item\s+/\<close>\<close>
definition reItemHead :: re where
  "reItemHead = seqs [Lit (cmd ''item''), Plus (Cls isSpace)]"

text \<open>\<^verbatim>\<open>/\\begin\{figure\*?\}[\s\S]*?\\caption\{([^}]*)\}[\s\S]*?\\end\{figure\*?\}/g\<close>\<close>
definition reFigure :: re where
  "reFigure = seqs [Lit (cmd ''begin{figure''), Opt (Lit (js ''*'')), Lit (js ''}''), Star Lazy anyCh,
     Lit (cmd ''caption{''), Grp 1 (Star Greedy (notCh 125)), Lit (js ''}''), Star Lazy anyCh,
     Lit (cmd ''end{figure''), Opt (Lit (js ''*'')), Lit (js ''}'')]"

text \<open>\<^verbatim>\<open>/\\includegraphics(?:\s*\[[^\]]*\])?\s*\{([^}]+)\}/g\<close>\<close>
definition reIncludegraphics :: re where
  "reIncludegraphics = seqs [Lit (cmd ''includegraphics''),
     Opt (seqs [Star Greedy (Cls isSpace), Lit (js ''[''), Star Greedy (notCh 93), Lit (js '']'')]),
     Star Greedy (Cls isSpace), Lit (js ''{''), Grp 1 (Plus (notCh 125)), Lit (js ''}'')]"

text \<open>\<^verbatim>\<open>/\\[a-zA-Z]+\{[^}]*\}/g\<close>, \<^verbatim>\<open>/\\[a-zA-Z]+/g\<close> and \<^verbatim>\<open>/\\[^a-zA-Z]/g\<close>\<close>
definition reCommandArg :: re where
  "reCommandArg = seqs [Lit [BS], Plus (Cls isLetter), Lit (js ''{''), Star Greedy (notCh 125), Lit (js ''}'')]"

definition reCommand :: re where
  "reCommand = seqs [Lit [BS], Plus (Cls isLetter)]"

definition reSymbol :: re where
  "reSymbol = seqs [Lit [BS], Cls (\<lambda>x. \<not> isLetter x)]"

text \<open>\<^verbatim>\<open>/\n\n+/\<close>, \<^verbatim>\<open>/\n/g\<close> and \<^verbatim>\<open>/\s+/g\<close>\<close>
definition reBlankLines :: re where
  "reBlankLines = seqs [Lit [10], Plus (Lit [10])]"

definition reNewline :: re where
  "reNewline = Lit [10]"

definition reSpaces :: re where
  "reSpaces = Plus (Cls isSpace)"

text \<open>\<^verbatim>\<open>/^<(h[1-6]|ul|ol|div|figure|img|table|blockquote|pre|br)/\<close>\<close>
definition reBlockTag :: re where
  "reBlockTag = seqs [Bol, Lit (js ''<''),
     Grp 1 (alts [Seq (Lit (js ''h'')) (Cls (\<lambda>x. 49 \<le> x \<and> x \<le> 54)), Lit (js ''ul''), Lit (js ''ol''),
       Lit (js ''div''), Lit (js ''figure''), Lit (js ''img''), Lit (js ''table''),
       Lit (js ''blockquote''), Lit (js ''pre''), Lit (js ''br'')])]"


section \<open>convertLaTeXToHTML\<close>

text \<open>
  A callback that calls a method on a capture which did not take part in the match
  (\<^verbatim>\<open>math.trim()\<close> on \<^verbatim>\<open>undefined\<close>) throws a TypeError: the result \<open>None\<close>.
  A capture interpolated into a template literal is printed, \<^verbatim>\<open>undefined\<close> included.
\<close>

definition groupText :: "rmatch \<Rightarrow> nat \<Rightarrow> jsstring" where
  "groupText mt i = (case groups mt i of None \<Rightarrow> js ''undefined'' | Some g \<Rightarrow> g)"

definition applyAll :: "(re \<times> jsstring) list \<Rightarrow> jsstring \<Rightarrow> jsstring" where
  "applyAll passes html = foldl (\<lambda>h (r, tmpl). replaceAll r tmpl h) html passes"

subsection \<open>Phase 1: math\<close>

type_synonym mathState = "(jsstring \<times> jsstring) list \<times> nat"

definition mathKey :: "bool \<Rightarrow> nat \<Rightarrow> jsstring" where
  "mathKey display n =
     (if display then js ''__MATH_DISPLAY_'' else js ''__MATH_INLINE_'') @ decimal n @ js ''__''"

definition mathContainer :: "bool \<Rightarrow> jsstring \<Rightarrow> jsstring" where
  \<open>mathContainer display math =
     (if display
      then js ''<div class="my-6 overflow-x-auto" data-math="'' @ math @ js ''" data-display="true"></div>''
      else js ''<span data-math="'' @ math @ js ''" data-display="false"></span>'')\<close>

definition saveMath :: "bool \<Rightarrow> rmatch \<Rightarrow> mathState \<Rightarrow> (jsstring \<times> mathState) option" where
  "saveMath display mt st =
     (case st of (mathBlocks, mathCounter) \<Rightarrow>
        (case groups mt 1 of
           None \<Rightarrow> None
         | Some math \<Rightarrow>
             Some (mathKey display mathCounter,
                   (AList.update (mathKey display mathCounter) (mathContainer display (trim math)) mathBlocks,
                    mathCounter + 1))))"

definition displayPasses :: "re list" where
  "displayPasses = [reBracket, reDollars, reEnv ''equation'', reEnv ''align'', reEnv ''gather'',
     reEnv ''eqnarray'', reEnv ''multline'']"

fun saveAll :: "re list \<Rightarrow> jsstring \<Rightarrow> mathState \<Rightarrow> (jsstring \<times> mathState) option" where
  "saveAll [] html st = Some (html, st)"
| "saveAll (r # rs) html st =
     (case replaceSt r (saveMath True) html st of
        None \<Rightarrow> None
      | Some (html', st') \<Rightarrow> saveAll rs html' st')"

definition protectMath :: "jsstring \<Rightarrow> (jsstring \<times> mathState) option" where
  "protectMath texContent =
     (case saveAll displayPasses texContent ([], 0) of
        None \<Rightarrow> None
      | Some (html, st) \<Rightarrow> replaceSt reInline (saveMath False) html st)"

subsection \<open>Phase 2: preamble and document wrapper\<close>

definition preamblePasses :: "(re \<times> jsstring) list" where
  "preamblePasses =
    [(reDirective ''documentclass'', []),
     (reUsepackage, []),
     (reDirective ''geometry'', []),
     (reDirective ''pagestyle'', []),
     (reDirective2 ''setcounter'', []),
     (reDirective2 ''renewcommand'', []),
     (Lit (cmd ''begin{document}''), []),
     (Lit (cmd ''end{document}''), []),
     (reAbstract, []),
     (Lit (cmd ''maketitle''), []),
     (reTable, []),
     (reTabular, [])]"

subsection \<open>Phase 3: structure and formatting\<close>

definition titleHtmlOf :: "jsstring \<Rightarrow> jsstring" where
  \<open>titleHtmlOf html =
     (case matchFirst (reArg ''title'') html of
        None \<Rightarrow> []
      | Some titleMatch \<Rightarrow>
          js ''<h1 class="text-5xl font-bold mb-4 text-white">'' @ groupText titleMatch 1 @ js ''</h1>'' @ [10])
     @ (case matchFirst (reArg ''author'') html of
        None \<Rightarrow> []
      | Some authorMatch \<Rightarrow>
          js ''<p class="text-lg text-gray-400 mb-2">'' @ groupText authorMatch 1 @ js ''</p>'' @ [10])
     @ (case matchFirst (reArg ''date'') html of
        None \<Rightarrow> []
      | Some dateMatch \<Rightarrow>
          js ''<p class="text-sm text-gray-500 mb-8">'' @ groupText dateMatch 1 @ js ''</p>'' @ [10])\<close>

definition frontMatterPasses :: "(re \<times> jsstring) list" where
  "frontMatterPasses = [(reArg ''title'', []), (reArg ''author'', []), (reArg ''date'', [])]"

definition sectionPasses :: "(re \<times> jsstring) list" where
  \<open>sectionPasses =
    [(reStarArg ''section'',
        js ''<h2 class="text-4xl font-bold mt-12 mb-6 text-white border-b-2 border-orange-500 pb-3">$1</h2>''),
     (reStarArg ''subsection'', js ''<h3 class="text-3xl font-semibold mt-10 mb-5 text-gray-100">$1</h3>''),
     (reStarArg ''subsubsection'', js ''<h4 class="text-2xl font-semibold mt-8 mb-4 text-gray-200">$1</h4>''),
     (reStarArg ''paragraph'', js ''<h5 class="text-xl font-semibold mt-6 mb-3 text-gray-300">$1</h5>'')]\<close>

definition formattingPasses :: "(re \<times> jsstring) list" where
  \<open>formattingPasses =
    [(reArg ''textbf'', js ''<strong class="font-bold">$1</strong>''),
     (reArg ''textit'', js ''<em class="italic">$1</em>''),
     (reArg ''texttt'', js ''<code class="bg-cosmic-800 px-2 py-1 rounded text-sm font-mono">$1</code>''),
     (reArg ''textsl'', js ''<em class="italic">$1</em>''),
     (reArg ''textsc'', js ''<span class="uppercase tracking-wide text-sm">$1</span>''),
     (reArg ''textrm'', js ''<span class="font-serif">$1</span>''),
     (reArg ''textsf'', js ''<span class="font-sans">$1</span>''),
     (reArg ''emph'', js ''<em class="italic">$1</em>'')]\<close>

definition texorpdfstringPass :: "(re \<times> jsstring) list" where
  "texorpdfstringPass = [(reTexorpdfstring, js ''$1'')]"

definition textupPass :: "(re \<times> jsstring) list" where
  \<open>textupPass = [(reArg ''textup'', js ''<span class="not-italic">$1</span>'')]\<close>

definition lineBreakPasses :: "(re \<times> jsstring) list" where
  "lineBreakPasses = [(Lit [BS, BS], js ''<br />''), (Lit (cmd ''newline''), js ''<br />'')]"

definition displayTemplate :: jsstring where
  \<open>displayTemplate = js ''<div class="my-6 overflow-x-auto" data-math="$1" data-display="true"></div>''\<close>

definition inlineTemplate :: jsstring where
  \<open>inlineTemplate = js ''<span data-math="$1" data-display="false"></span>''\<close>

definition mathTemplatePasses :: "(re \<times> jsstring) list" where
  "mathTemplatePasses =
    [(reBracket, displayTemplate),
     (reDollars, displayTemplate),
     (reEnv ''equation'', displayTemplate),
     (reEnv ''align'', displayTemplate),
     (reAlignPlain, displayTemplate),
     (reEnv ''gather'', displayTemplate),
     (reEnv ''eqnarray'', displayTemplate),
     (reEnv ''multline'', displayTemplate),
     (reInline, inlineTemplate)]"

definition itemInnerPasses :: "(re \<times> jsstring) list" where
  "itemInnerPasses =
    [(reArg ''textbf'', js ''<strong>$1</strong>''), (reArg ''textit'', js ''<em>$1</em>'')]"

definition itemText :: "jsstring \<Rightarrow> jsstring" where
  "itemText item = applyAll itemInnerPasses (trim (replaceFirst reItemHead [] item))"

definition itemizeItem :: "jsstring \<Rightarrow> jsstring" where
  \<open>itemizeItem item =
     js ''<li class="ml-4 mb-2 flex items-start"><span class="mr-3">'' @ [8226] @ js ''</span><span>''
       @ itemText item @ js ''</span></li>''\<close>

definition enumerateItem :: "nat \<times> jsstring \<Rightarrow> jsstring" where
  \<open>enumerateItem p =
     (case p of (idx, item) \<Rightarrow>
        js ''<li class="ml-4 mb-2 flex items-start"><span class="mr-3">'' @ decimal (idx + 1) @ js ''.</span><span>''
          @ itemText item @ js ''</span></li>'')\<close>

definition itemizeFn :: "rmatch \<Rightarrow> jsstring option" where
  \<open>itemizeFn mt =
     (case groups mt 1 of
        None \<Rightarrow> None
      | Some items \<Rightarrow>
          Some (js ''<ul class="my-4">'' @ concat (map itemizeItem (matchAll reItem items)) @ js ''</ul>''))\<close>

definition enumerateFn :: "rmatch \<Rightarrow> jsstring option" where
  \<open>enumerateFn mt =
     (case groups mt 1 of
        None \<Rightarrow> None
      | Some items \<Rightarrow>
          Some (js ''<ol class="my-4">'' @ concat (map enumerateItem (enumerate 0 (matchAll reItem items)))
                  @ js ''</ol>''))\<close>

definition notePasses :: "(re \<times> jsstring) list" where
  \<open>notePasses =
    [(reArg0 ''footnote'', js ''<sup class="text-xs text-orange-400">[*]</sup>''),
     (reArg0 ''cite'', js ''<sup class="text-xs text-orange-400">[citation]</sup>''),
     (reArg0 ''citep'', js ''<sup class="text-xs text-orange-400">[citation]</sup>''),
     (reArg0 ''citet'', js ''<sup class="text-xs text-orange-400">[citation]</sup>''),
     (reArg0 ''ref'', js ''<a href="#$1" class="text-orange-500 hover:underline">Ref. $1</a>''),
     (reArg0 ''eqref'', js ''<a href="#$1" class="text-orange-500 hover:underline">($1)</a>''),
     (reArg0 ''label'', js ''<a id="$1"></a>'')]\<close>

definition figureFn :: "rmatch \<Rightarrow> jsstring option" where
  \<open>figureFn mt =
     Some (js ''<figure class="my-8"><figcaption class="text-sm text-gray-400 italic mt-2">''
             @ groupText mt 1 @ js ''</figcaption></figure>'')\<close>

definition includegraphicsFn :: "rmatch \<Rightarrow> jsstring option" where
  \<open>includegraphicsFn mt =
     (case groups mt 1 of
        None \<Rightarrow> None
      | Some path \<Rightarrow>
          Some (js ''<img src="/assets/'' @ lastSegment path
                  @ js ''" alt="figure" class="max-w-full h-auto rounded-lg my-4" loading="lazy" />''))\<close>

definition verbatimFn :: "rmatch \<Rightarrow> jsstring option" where
  \<open>verbatimFn mt =
     (case groups mt 1 of
        None \<Rightarrow> None
      | Some code \<Rightarrow>
          Some (js ''<pre class="bg-cosmic-800 p-4 rounded overflow-x-auto text-sm my-4"><code>'' @ trim code
                  @ js ''</code></pre>''))\<close>

definition specialTextPasses :: "(re \<times> jsstring) list" where
  \<open>specialTextPasses =
    [(Lit (cmd ''textbackslash''), [BS]),
     (Lit (cmd ''$''), js ''$''),
     (Lit (cmd ''%''), js ''%''),
     (Lit (cmd ''{''), js ''{''),
     (Lit (cmd ''}''), js ''}''),
     (Lit (cmd ''_''), js ''_''),
     (Lit (js ''---''), [8212]),
     (Lit (js ''--''), [8211]),
     (Lit (js ''``''), js ''"''),
     (Lit [39, 39], js ''"'')]\<close>

subsection \<open>Phase 4: remaining commands\<close>

definition fallbackPasses :: "(re \<times> jsstring) list" where
  "fallbackPasses = [(reCommandArg, []), (reCommand, []), (reSymbol, [])]"

subsection \<open>Paragraphs\<close>

definition wrapPara :: "jsstring \<Rightarrow> jsstring" where
  \<open>wrapPara para0 =
     (let para = trim para0 in
      if para = [] then []
      else if test reBlockTag para then para
      else js ''<p class="mb-4 leading-relaxed text-gray-200">''
             @ (if 10 \<in> set para then replaceAll reSpaces (js '' '') (replaceAll reNewline (js '' '') para)
                else para)
             @ js ''</p>'')\<close>

definition paragraphize :: "jsstring \<Rightarrow> jsstring" where
  "paragraphize html = concat (filter (\<lambda>p. length p > 0) (map wrapPara (splitRe reBlankLines html)))"

subsection \<open>Phase 5: restoring the math blocks\<close>

text \<open>
  A key is made of underscores, capital letters and digits, each of which stands for itself
  in the pattern \<^verbatim>\<open>new RegExp(key, 'g')\<close>.
\<close>

definition restore :: "(jsstring \<times> jsstring) list \<Rightarrow> jsstring \<Rightarrow> jsstring" where
  "restore mathBlocks paragraphs =
     foldl (\<lambda>result (key, val). replaceAll (Lit key) val result) paragraphs mathBlocks"

subsection \<open>The converter\<close>

text \<open>
  The statements of the body, in the order of the source.  The declarations of
  \<^verbatim>\<open>titleMatch\<close>, \<^verbatim>\<open>authorMatch\<close>, \<^verbatim>\<open>dateMatch\<close> and \<^verbatim>\<open>titleHtml\<close> occur twice in it
  (lines 110--114 and 147--151); \<open>convertLaTeXToHTML\<close> is what the statements compute when they
  are run one after the other, the value returned being built from the later declarations.
  What becomes of the body with its declarations as they are written is
  \<open>convertLaTeXToHTML_module\<close> below.
\<close>

definition stripPreamble :: "jsstring \<Rightarrow> jsstring" where
  "stripPreamble html = applyAll preamblePasses html"

definition structureFirst :: "jsstring \<Rightarrow> jsstring" where
  "structureFirst html =
     applyAll (sectionPasses @ formattingPasses @ texorpdfstringPass) (applyAll frontMatterPasses html)"

definition structureSecond :: "jsstring \<Rightarrow> jsstring \<times> jsstring" where
  "structureSecond html =
     (titleHtmlOf html,
      applyAll (sectionPasses @ formattingPasses @ textupPass @ texorpdfstringPass)
        (applyAll (lineBreakPasses @ mathTemplatePasses) (applyAll frontMatterPasses html)))"

definition environments :: "jsstring \<Rightarrow> jsstring option" where
  "environments html0 =
     (case replaceFn (reEnv1 ''itemize'') itemizeFn html0 of
        None \<Rightarrow> None
      | Some html1 \<Rightarrow>
     (case replaceFn (reEnv1 ''enumerate'') enumerateFn html1 of
        None \<Rightarrow> None
      | Some html2 \<Rightarrow>
     (case replaceFn reFigure figureFn (applyAll notePasses html2) of
        None \<Rightarrow> None
      | Some html3 \<Rightarrow>
     (case replaceFn reIncludegraphics includegraphicsFn html3 of
        None \<Rightarrow> None
      | Some html4 \<Rightarrow> replaceFn (reEnv1 ''verbatim'') verbatimFn html4))))"

definition finish :: "jsstring \<Rightarrow> jsstring" where
  "finish html = applyAll (lineBreakPasses @ specialTextPasses @ fallbackPasses) html"

definition transform :: "jsstring \<Rightarrow> (jsstring \<times> jsstring) option" where
  "transform html0 =
     (case structureSecond (structureFirst (stripPreamble html0)) of
        (titleHtml, html) \<Rightarrow>
          (case environments html of
             None \<Rightarrow> None
           | Some html' \<Rightarrow> Some (titleHtml, finish html')))"

definition convertLaTeXToHTML :: "jsstring \<Rightarrow> jsstring option" where
  "convertLaTeXToHTML texContent =
     (case protectMath texContent of
        None \<Rightarrow> None
      | Some (html, mathBlocks, mathCounter) \<Rightarrow>
          (case transform html of
             None \<Rightarrow> None
           | Some (titleHtml, html') \<Rightarrow> Some (titleHtml @ restore mathBlocks (paragraphize html'))))"

subsection \<open>The declarations of the body\<close>

text \<open>
  The names that the statements of the function body declare with \<^verbatim>\<open>let\<close> and \<^verbatim>\<open>const\<close>, in the
  order of the source: \<^verbatim>\<open>html\<close> (line 39), \<^verbatim>\<open>mathBlocks\<close> (42), \<^verbatim>\<open>mathCounter\<close> (43),
  \<^verbatim>\<open>titleMatch\<close>, \<^verbatim>\<open>authorMatch\<close>, \<^verbatim>\<open>dateMatch\<close> (110--112), \<^verbatim>\<open>titleHtml\<close> (114), the same four
  again (147--149, 151), \<^verbatim>\<open>paragraphs\<close> (276) and \<^verbatim>\<open>result\<close> (298).  The declarations inside the
  callbacks and in the head of the \<^verbatim>\<open>for\<close> loop belong to scopes of their own.
\<close>

definition lexicallyDeclaredNames :: "string list" where
  "lexicallyDeclaredNames =
     [''html'', ''mathBlocks'', ''mathCounter'',
      ''titleMatch'', ''authorMatch'', ''dateMatch'', ''titleHtml'',
      ''titleMatch'', ''authorMatch'', ''dateMatch'', ''titleHtml'',
      ''paragraphs'', ''result'']"

text \<open>
  A function body whose lexically declared names hold a duplicate is an early error: the
  module is rejected with a SyntaxError when it is read, and no call of the function ever
  runs.  Otherwise a call returns what the statements compute, or throws the TypeError of a
  callback.  The strings of the model are lists without a bound on their length: the
  RangeError of an engine whose strings have one is not modelled.
\<close>

datatype error = SyntaxError | TypeError

definition earlyError :: "string list \<Rightarrow> bool" where
  "earlyError names = (\<not> distinct names)"

definition convertLaTeXToHTML_module :: "jsstring \<Rightarrow> error + jsstring" where
  "convertLaTeXToHTML_module texContent =
     (if earlyError lexicallyDeclaredNames then Inl SyntaxError
      else case convertLaTeXToHTML texContent of None \<Rightarrow> Inl TypeError | Some out \<Rightarrow> Inr out)"

section \<open>Analysis of patterns\<close>

text \<open>The literal text with which every match of a pattern has to begin.\<close>

fun litPrefix :: "re \<Rightarrow> jsstring" where
  "litPrefix (Lit l) = l"
| "litPrefix (Seq (Behind pos p) b) = litPrefix b"
| "litPrefix (Seq Bol b) = litPrefix b"
| "litPrefix (Seq a b) = litPrefix a"
| "litPrefix (Grp i a) = litPrefix a"
| "litPrefix r = []"


text \<open>The rendering of the segments of a scan, with a fixed text in place of every match.\<close>

definition render :: "jsstring \<Rightarrow> (jsstring \<times> rmatch) list \<times> jsstring \<Rightarrow> jsstring" where
  "render t p = concat (map (\<lambda>seg. fst seg @ t) (fst p)) @ snd p"

text \<open>What the last two fallback passes compute, written as recursions on the text.\<close>

function stripCommand :: "jsstring \<Rightarrow> jsstring" where
  "stripCommand [] = []"
| "stripCommand [x] = [x]"
| "stripCommand (x # y # t) =
     (if x = BS \<and> isLetter y then stripCommand (dropWhile isLetter t) else x # stripCommand (y # t))"
  by pat_completeness auto
termination
  by (relation "measure length") (auto simp: length_dropWhile_le less_Suc_eq_le le_SucI)

fun stripSymbol :: "jsstring \<Rightarrow> jsstring" where
  "stripSymbol [] = []"
| "stripSymbol [x] = [x]"
| "stripSymbol (x # y # t) =
     (if x = BS \<and> \<not> isLetter y then stripSymbol t else x # stripSymbol (y # t))"

text \<open>A command token: a backslash with a letter right after it.\<close>

fun hasCommandToken :: "jsstring \<Rightarrow> bool" where
  "hasCommandToken (x # y # zs) = ((x = BS \<and> isLetter y) \<or> hasCommandToken (y # zs))"
| "hasCommandToken zs = False"

text \<open>The replacement of a literal text, written as a recursion on the text.\<close>

function replaceLit :: "jsstring \<Rightarrow> jsstring \<Rightarrow> jsstring \<Rightarrow> jsstring" where
  "replaceLit l t [] = []"
| "replaceLit l t (x # xs) =
     (if l \<noteq> [] \<and> prefix l (x # xs) then t @ replaceLit l t (drop (length l) (x # xs))
      else x # replaceLit l t xs)"
  by pat_completeness auto
termination
proof (relation "measure (\<lambda>(l, t, s). length s)")
  fix l t :: jsstring and x xs
  assume "l \<noteq> [] \<and> prefix l (x # xs)"
  then have "0 < length l" by simp
  then show "((l, t, drop (length l) (x # xs)), (l, t, x # xs)) \<in> measure (\<lambda>(l, t, s). length s)"
    by auto
qed auto

text \<open>The characters an inline math expression can hold: no dollar sign, no line terminator.\<close>

definition inlineChar :: "jschar \<Rightarrow> bool" where
  "inlineChar x = (x \<noteq> 36 \<and> \<not> isLineTerminator x)"

text \<open>Whether every match of a pattern sets the capture \<open>i\<close>.\<close>

primrec setsGroup :: "nat \<Rightarrow> re \<Rightarrow> bool" where
  "setsGroup i (Lit l) = False"
| "setsGroup i (Cls p) = False"
| "setsGroup i (Seq a b) = (setsGroup i a \<or> setsGroup i b)"
| "setsGroup i (Alt a b) = (setsGroup i a \<and> setsGroup i b)"
| "setsGroup i (Star g a) = False"
| "setsGroup i (Grp j a) = (j = i \<or> setsGroup i a)"
| "setsGroup i (Ahead pos a) = (pos \<and> setsGroup i a)"
| "setsGroup i (Behind pos p) = False"
| "setsGroup i Bol = False"

text \<open>The captures set in a state stay set in a later one.\<close>

definition capsKept :: "mstate \<Rightarrow> mstate \<Rightarrow> bool" where
  "capsKept s s' = (dom (caps s) \<subseteq> dom (caps s'))"

text \<open>The opening tags that the paragraph pass takes for block-level markup.\<close>

definition blockTags :: "jsstring list" where
  "blockTags = [js ''<h1'', js ''<h2'', js ''<h3'', js ''<h4'', js ''<h5'', js ''<h6'', js ''<ul'',
     js ''<ol'', js ''<div'', js ''<figure'', js ''<img'', js ''<table'', js ''<blockquote'',
     js ''<pre'', js ''<br'']"

text \<open>Whether a pattern, followed by a continuation, matches at a state.\<close>

definition matches :: "re \<Rightarrow> cont \<Rightarrow> mstate \<Rightarrow> bool" where
  "matches r k s = (matchRe r k s \<noteq> None)"

text \<open>The escape sequences of the symbol-escape pass: a backslash with what follows it.\<close>

definition escapes :: "jsstring list" where
  "escapes = [cmd ''textbackslash'', cmd ''$'', cmd ''%'', cmd ''{'', cmd ''}'', cmd ''_'']"

definition hasEscape :: "jsstring \<Rightarrow> bool" where
  "hasEscape s = list_ex (\<lambda>e. sublist e s) escapes"

text \<open>
  What the joining of the lines of a paragraph computes, written as recursions on the text:
  every newline becomes a space, then every run of whitespace becomes one space.
\<close>

function collapseSpaces :: "jsstring \<Rightarrow> jsstring" where
  "collapseSpaces [] = []"
| "collapseSpaces (x # t) =
     (if isSpace x then 32 # collapseSpaces (dropWhile isSpace t) else x # collapseSpaces t)"
  by pat_completeness auto
termination
  by (relation "measure length") (auto simp: length_dropWhile_le less_Suc_eq_le)

definition joinLines :: "jsstring \<Rightarrow> jsstring" where
  "joinLines para =
     (if 10 \<in> set para then collapseSpaces (map (\<lambda>c. if c = 10 then 32 else c) para) else para)"
section \<open>Matching: general facts\<close>

lemma matchRe_litPrefix:
  "\<not> prefix (litPrefix r) (rest s) \<Longrightarrow> matchRe r k s = None"
proof (induction r arbitrary: k s rule: litPrefix.induct)
  case (1 l)
  then show ?case by (cases s) (auto simp: rest_def)
next
  case (2 pos p b)
  then show ?case by (cases s) (auto simp: rest_def)
next
  case (3 b)
  then show ?case by (cases s) (auto simp: rest_def)
qed (auto simp: rest_def)

lemma exec_litPrefix:
  "\<not> prefix (litPrefix r) s \<Longrightarrow> exec r b s = None"
  by (simp add: exec_def matchRe_litPrefix rest_def)

lemma scanMatches_skip:
  "litPrefix r \<noteq> [] \<Longrightarrow> \<not> sublist (litPrefix r) s \<Longrightarrow> scanMatches r 0 b u s = ([], rev u @ s)"
proof (induction s arbitrary: b u)
  case Nil
  then show ?case by (simp add: exec_litPrefix)
next
  case (Cons x xs)
  from Cons.prems have np: "\<not> prefix (litPrefix r) (x # xs)" and ns: "\<not> sublist (litPrefix r) xs"
    by (auto simp: sublist_Cons_right)
  show ?case using Cons.IH [OF Cons.prems(1) ns] np by (simp add: exec_litPrefix)
qed

lemma replaceAll_skip:
  "litPrefix r \<noteq> [] \<Longrightarrow> \<not> sublist (litPrefix r) s \<Longrightarrow> replaceAll r tmpl s = s"
  by (simp add: replaceAll_def scanMatches_skip)

lemma replaceFn_skip:
  "litPrefix r \<noteq> [] \<Longrightarrow> \<not> sublist (litPrefix r) s \<Longrightarrow> replaceFn r f s = Some s"
  by (simp add: replaceFn_def scanMatches_skip)

lemma replaceSt_skip:
  "litPrefix r \<noteq> [] \<Longrightarrow> \<not> sublist (litPrefix r) s \<Longrightarrow> replaceSt r f s st = Some (s, st)"
  by (simp add: replaceSt_def scanMatches_skip)

lemma matchFirst_skip:
  "litPrefix r \<noteq> [] \<Longrightarrow> \<not> sublist (litPrefix r) s \<Longrightarrow> matchFirst r s = None"
  by (simp add: matchFirst_def scanMatches_skip)

lemma splitRe_skip:
  "litPrefix r \<noteq> [] \<Longrightarrow> \<not> sublist (litPrefix r) s \<Longrightarrow> splitRe r s = [s]"
  by (simp add: splitRe_def scanMatches_skip)

lemma litPrefix_patterns:
  "litPrefix reBracket = cmd ''[''"
  "litPrefix reDollars = js ''$$''"
  "litPrefix (reEnv name) = cmd ''begin{'' @ js name"
  "litPrefix (reEnv1 name) = cmd ''begin{'' @ js name @ js ''}''"
  "litPrefix reAlignPlain = cmd ''begin{'' @ js ''align'' @ js ''}''"
  "litPrefix reInline = js ''$''"
  "litPrefix (reDirective name) = cmd name @ js ''{''"
  "litPrefix reUsepackage = cmd ''usepackage''"
  "litPrefix (reDirective2 name) = cmd name @ js ''{''"
  "litPrefix reAbstract = cmd ''begin{abstract}''"
  "litPrefix reTable = cmd ''begin{table''"
  "litPrefix reTabular = cmd ''begin{tabular}''"
  "litPrefix (reArg name) = cmd name @ js ''{''"
  "litPrefix (reStarArg name) = cmd name"
  "litPrefix (reArg0 name) = cmd name @ js ''{''"
  "litPrefix reTexorpdfstring = cmd ''texorpdfstring{''"
  "litPrefix reItem = cmd ''item''"
  "litPrefix reItemHead = cmd ''item''"
  "litPrefix reFigure = cmd ''begin{figure''"
  "litPrefix reIncludegraphics = cmd ''includegraphics''"
  "litPrefix reCommandArg = [BS]"
  "litPrefix reCommand = [BS]"
  "litPrefix reSymbol = [BS]"
  "litPrefix reBlankLines = [10]"
  "litPrefix reNewline = [10]"
  by (simp_all add: reBracket_def reDollars_def reEnv_def reEnv1_def reAlignPlain_def reInline_def
      reDirective_def reUsepackage_def reDirective2_def reAbstract_def reTable_def reTabular_def
      reArg_def reStarArg_def reArg0_def reTexorpdfstring_def reItem_def reItemHead_def reFigure_def
      reIncludegraphics_def reCommandArg_def reCommand_def reSymbol_def reBlankLines_def
      reNewline_def Plus_def Opt_def)


section \<open>Passes that leave a text alone\<close>

lemma applyAll_Nil: "applyAll [] s = s"
  by (simp add: applyAll_def)

lemma applyAll_Cons: "applyAll ((r, tmpl) # ps) s = applyAll ps (replaceAll r tmpl s)"
  by (simp add: applyAll_def)

lemma applyAll_append: "applyAll (ps @ qs) s = applyAll qs (applyAll ps s)"
  by (simp add: applyAll_def)

lemma sublist_hd_in_set:
  assumes "sublist l s" and "l \<noteq> []"
  shows "hd l \<in> set s"
proof -
  from assms(1) obtain xs ys where "s = xs @ l @ ys" by (auto simp: sublist_def)
  with assms(2) show ?thesis by (cases l) auto
qed

lemma applyAll_plain:
  assumes "list_all (\<lambda>p. litPrefix (fst p) \<noteq> [] \<and> hd (litPrefix (fst p)) \<in> C) ps"
    and "C \<inter> set s = {}"
  shows "applyAll ps s = s"
  using assms(1)
proof (induction ps)
  case Nil
  then show ?case by (simp add: applyAll_Nil)
next
  case (Cons p ps)
  obtain r tmpl where p: "p = (r, tmpl)" by (cases p)
  from Cons.prems p have ne: "litPrefix r \<noteq> []" and hd: "hd (litPrefix r) \<in> C" by auto
  from hd assms(2) have "hd (litPrefix r) \<notin> set s" by auto
  with ne have "\<not> sublist (litPrefix r) s" using sublist_hd_in_set by blast
  with ne have "replaceAll r tmpl s = s" by (rule replaceAll_skip)
  with Cons p show ?case by (simp add: applyAll_Cons)
qed

lemma hd_cmd: "hd (cmd name @ l) = BS" "cmd name @ l \<noteq> []" "hd (cmd name) = BS" "cmd name \<noteq> []"
  by (simp_all add: cmd_def)

lemma backslash_passes:
  "list_all (\<lambda>p. litPrefix (fst p) \<noteq> [] \<and> hd (litPrefix (fst p)) \<in> {BS}) preamblePasses"
  "list_all (\<lambda>p. litPrefix (fst p) \<noteq> [] \<and> hd (litPrefix (fst p)) \<in> {BS}) frontMatterPasses"
  "list_all (\<lambda>p. litPrefix (fst p) \<noteq> [] \<and> hd (litPrefix (fst p)) \<in> {BS}) sectionPasses"
  "list_all (\<lambda>p. litPrefix (fst p) \<noteq> [] \<and> hd (litPrefix (fst p)) \<in> {BS}) formattingPasses"
  "list_all (\<lambda>p. litPrefix (fst p) \<noteq> [] \<and> hd (litPrefix (fst p)) \<in> {BS}) texorpdfstringPass"
  "list_all (\<lambda>p. litPrefix (fst p) \<noteq> [] \<and> hd (litPrefix (fst p)) \<in> {BS}) textupPass"
  "list_all (\<lambda>p. litPrefix (fst p) \<noteq> [] \<and> hd (litPrefix (fst p)) \<in> {BS}) lineBreakPasses"
  "list_all (\<lambda>p. litPrefix (fst p) \<noteq> [] \<and> hd (litPrefix (fst p)) \<in> {BS}) notePasses"
  "list_all (\<lambda>p. litPrefix (fst p) \<noteq> [] \<and> hd (litPrefix (fst p)) \<in> {BS}) fallbackPasses"
  "list_all (\<lambda>p. litPrefix (fst p) \<noteq> [] \<and> hd (litPrefix (fst p)) \<in> {BS}) itemInnerPasses"
  by (simp_all add: preamblePasses_def frontMatterPasses_def sectionPasses_def formattingPasses_def
      texorpdfstringPass_def textupPass_def lineBreakPasses_def notePasses_def fallbackPasses_def
      itemInnerPasses_def litPrefix_patterns hd_cmd)

lemma math_template_passes:
  "list_all (\<lambda>p. litPrefix (fst p) \<noteq> [] \<and> hd (litPrefix (fst p)) \<in> {BS, 36}) mathTemplatePasses"
  by (simp add: mathTemplatePasses_def litPrefix_patterns hd_cmd js_def)


lemma no_char_no_sublist: "l \<noteq> [] \<Longrightarrow> hd l \<notin> set s \<Longrightarrow> \<not> sublist l s"
  using sublist_hd_in_set by blast

lemma replaceAll_Lit_skip: "l \<noteq> [] \<Longrightarrow> \<not> sublist l s \<Longrightarrow> replaceAll (Lit l) tmpl s = s"
  using replaceAll_skip [of "Lit l"] by simp

lemma special_text_plain:
  assumes "BS \<notin> set s" and "\<not> sublist (js ''--'') s" and "\<not> sublist (js ''``'') s"
    and "\<not> sublist [39, 39] s"
  shows "applyAll specialTextPasses s = s"
proof -
  have d3: "\<not> sublist (js ''---'') s"
  proof
    assume "sublist (js ''---'') s"
    moreover have "sublist (js ''--'') (js ''---'')"
      by (simp add: js_def sublist_Cons_right)
    ultimately have "sublist (js ''--'') s" by (rule sublist_order.order_trans [rotated])
    with assms(2) show False by simp
  qed
  have bs: "\<And>name. \<not> sublist (cmd name) s"
    using assms(1) by (intro no_char_no_sublist) (simp_all add: hd_cmd)
  have ne: "\<And>name. cmd name \<noteq> []" "js ''---'' \<noteq> []" "js ''--'' \<noteq> []" "js ''``'' \<noteq> []"
    by (simp_all add: cmd_def js_def)
  show ?thesis
    using assms d3 bs ne
    by (simp add: specialTextPasses_def applyAll_Cons applyAll_Nil replaceAll_Lit_skip)
qed

lemma stripPreamble_plain: "BS \<notin> set s \<Longrightarrow> stripPreamble s = s"
  by (simp add: stripPreamble_def applyAll_plain [OF backslash_passes(1)])

lemma structureFirst_plain: "BS \<notin> set s \<Longrightarrow> structureFirst s = s"
  by (simp add: structureFirst_def applyAll_append applyAll_plain [OF backslash_passes(2)]
      applyAll_plain [OF backslash_passes(3)] applyAll_plain [OF backslash_passes(4)]
      applyAll_plain [OF backslash_passes(5)])

lemma titleHtmlOf_plain:
  assumes "BS \<notin> set s"
  shows "titleHtmlOf s = []"
proof -
  have "\<And>l. l \<noteq> [] \<Longrightarrow> hd l = BS \<Longrightarrow> \<not> sublist l s"
    using assms no_char_no_sublist by metis
  then show ?thesis
    by (simp add: titleHtmlOf_def matchFirst_skip litPrefix_patterns hd_cmd)
qed

lemma structureSecond_plain:
  assumes "BS \<notin> set s" and "36 \<notin> set s"
  shows "structureSecond s = ([], s)"
proof -
  have c1: "{BS} \<inter> set s = {}" and c2: "{BS, 36} \<inter> set s = {}"
    using assms by auto
  show ?thesis
    by (simp add: structureSecond_def applyAll_append titleHtmlOf_plain [OF assms(1)]
        applyAll_plain [OF backslash_passes(2) c1] applyAll_plain [OF backslash_passes(3) c1]
        applyAll_plain [OF backslash_passes(4) c1] applyAll_plain [OF backslash_passes(5) c1]
        applyAll_plain [OF backslash_passes(6) c1] applyAll_plain [OF backslash_passes(7) c1]
        applyAll_plain [OF math_template_passes c2])
qed

lemma environments_plain:
  assumes "BS \<notin> set s"
  shows "environments s = Some s"
proof -
  have c1: "{BS} \<inter> set s = {}"
    using assms by auto
  have "\<And>l. l \<noteq> [] \<Longrightarrow> hd l = BS \<Longrightarrow> \<not> sublist l s"
    using assms no_char_no_sublist by metis
  then have skipFn: "\<And>r f. litPrefix r \<noteq> [] \<Longrightarrow> hd (litPrefix r) = BS \<Longrightarrow> replaceFn r f s = Some s"
    using replaceFn_skip by blast
  show ?thesis
    by (simp add: environments_def applyAll_plain [OF backslash_passes(8) c1] skipFn
        litPrefix_patterns hd_cmd)
qed

lemma finish_plain:
  assumes "BS \<notin> set s" and "\<not> sublist (js ''--'') s" and "\<not> sublist (js ''``'') s"
    and "\<not> sublist [39, 39] s"
  shows "finish s = s"
proof -
  have c1: "{BS} \<inter> set s = {}"
    using assms by auto
  show ?thesis
    by (simp add: finish_def applyAll_append applyAll_plain [OF backslash_passes(7) c1]
        applyAll_plain [OF backslash_passes(9) c1] special_text_plain [OF assms])
qed

lemma transform_plain:
  assumes "BS \<notin> set s" and "36 \<notin> set s" and "\<not> sublist (js ''--'') s"
    and "\<not> sublist (js ''``'') s" and "\<not> sublist [39, 39] s"
  shows "transform s = Some ([], s)"
  by (simp add: transform_def stripPreamble_plain structureFirst_plain structureSecond_plain
      environments_plain finish_plain assms)

section \<open>Scanning: general facts\<close>

lemma expand_plain: "36 \<notin> set t \<Longrightarrow> expand t mt = t"
  by (induction t mt rule: expand.induct) auto

lemma replaceAll_render: "36 \<notin> set t \<Longrightarrow> replaceAll r t s = render t (scanMatches r 0 [] [] s)"
  by (simp add: replaceAll_def render_def expand_plain case_prod_unfold)

lemma render_step: "render t (case p of (segs, rm) \<Rightarrow> (e # segs, rm)) = fst e @ t @ render t p"
  by (cases p) (simp add: render_def)

lemma scanMatches_skip_prefix:
  "scanMatches r (length p) b u (p @ xs) = scanMatches r 0 (rev p @ b) u xs"
  by (induction p arbitrary: b) auto

lemma exec_Lit:
  "exec (Lit l) b s =
     (if prefix l s
      then Some \<lparr>matched = l, groups = (\<lambda>i. None), ngroup = 0, before = rev b,
                  after = drop (length l) s\<rparr>
      else None)"
  by (auto simp: exec_def rest_def caps_def prefix_def)

lemma render_scan_Lit:
  "l \<noteq> [] \<Longrightarrow> render t (scanMatches (Lit l) 0 b u s) = rev u @ replaceLit l t s"
proof (induction l t s arbitrary: b u rule: replaceLit.induct)
  case (1 l t)
  then show ?case by (simp add: exec_Lit render_def)
next
  case (2 l t x xs)
  show ?case
  proof (cases "prefix l (x # xs)")
    case True
    with "2.prems" obtain l' where l: "l = x # l'" by (cases l) auto
    from True l obtain ys where xs: "xs = l' @ ys" by (auto simp: prefix_def)
    have "scanMatches (Lit l) (length l') (x # b) [] (l' @ ys)
          = scanMatches (Lit l) 0 (rev l' @ x # b) [] ys"
      by (rule scanMatches_skip_prefix)
    moreover from "2.IH"(1) [of "rev l' @ x # b" "[]"] True "2.prems" l xs
    have "render t (scanMatches (Lit l) 0 (rev l' @ x # b) [] ys) = replaceLit l t ys"
      by simp
    ultimately show ?thesis
      using True l xs by (simp add: exec_Lit render_step)
  next
    case False
    with "2.IH"(2) [of "x # b" "x # u"] "2.prems" show ?thesis
      by (simp add: exec_Lit)
  qed
qed

lemma replaceAll_Lit: "l \<noteq> [] \<Longrightarrow> 36 \<notin> set t \<Longrightarrow> replaceAll (Lit l) t s = replaceLit l t s"
  by (simp add: replaceAll_render render_scan_Lit)

lemma set_replaceLit: "set (replaceLit l t s) \<subseteq> set s \<union> set t"
proof (induction l t s rule: replaceLit.induct)
  case (2 l t x xs)
  have "set (drop (length l) (x # xs)) \<subseteq> set (x # xs)" by (rule set_drop_subset)
  with 2 show ?case by auto
qed simp

lemma sublist_pair_Cons:
  "sublist [c, c] (x # zs) = ((x = c \<and> zs \<noteq> [] \<and> hd zs = c) \<or> sublist [c, c] zs)"
  by (cases zs) (auto simp: sublist_Cons_right)

lemma replaceLit_head:
  "s = [] \<or> hd s \<noteq> c \<Longrightarrow> d \<noteq> c \<Longrightarrow> replaceLit l [d] s = [] \<or> hd (replaceLit l [d] s) \<noteq> c"
  by (cases s) auto

lemma replaceLit_pair_gone:
  "d \<noteq> c \<Longrightarrow> \<not> sublist [c, c] (replaceLit [c, c] [d] s)"
proof (induction "[c, c]" "[d]" s rule: replaceLit.induct)
  case 1
  then show ?case by simp
next
  case (2 x xs)
  show ?case
  proof (cases "prefix [c, c] (x # xs)")
    case True
    then obtain ys where xs: "x = c" "xs = c # ys" by (cases xs) auto
    with "2.hyps"(1) "2.prems" have "\<not> sublist [c, c] (replaceLit [c, c] [d] ys)" by simp
    with xs "2.prems" show ?thesis by (simp add: sublist_pair_Cons)
  next
    case False
    then have "x = c \<Longrightarrow> xs = [] \<or> hd xs \<noteq> c" by (cases xs) auto
    then have "x = c \<Longrightarrow> replaceLit [c, c] [d] xs = [] \<or> hd (replaceLit [c, c] [d] xs) \<noteq> c"
      using replaceLit_head [of xs c d "[c, c]"] "2.prems" by blast
    with False 2 show ?thesis by (auto simp: sublist_pair_Cons)
  qed
qed

lemma replaceLit_pair_kept:
  "d \<noteq> c \<Longrightarrow> \<not> sublist [c, c] s \<Longrightarrow> \<not> sublist [c, c] (replaceLit l [d] s)"
proof (induction l "[d]" s rule: replaceLit.induct)
  case (1 l)
  then show ?case by simp
next
  case (2 l x xs)
  show ?case
  proof (cases "l \<noteq> [] \<and> prefix l (x # xs)")
    case True
    have "sublist (drop (length l) (x # xs)) (x # xs)"
      by (metis append_take_drop_id sublist_appendI sublist_order.order_refl suffix_imp_sublist suffix_drop)
    with "2.prems"(2) have "\<not> sublist [c, c] (drop (length l) (x # xs))"
      using sublist_order.order_trans by blast
    with True 2 show ?thesis by (simp add: sublist_pair_Cons)
  next
    case False
    from "2.prems"(2) have nx: "\<not> sublist [c, c] xs" and "x = c \<Longrightarrow> xs = [] \<or> hd xs \<noteq> c"
      by (auto simp: sublist_pair_Cons)
    then have "x = c \<Longrightarrow> replaceLit l [d] xs = [] \<or> hd (replaceLit l [d] xs) \<noteq> c"
      using replaceLit_head [of xs c d l] "2.prems"(1) by blast
    with False 2 nx show ?thesis by (auto simp: sublist_pair_Cons)
  qed
qed

lemma take_upto_dropWhile:
  "take (length (pre @ xs) - length (dropWhile p xs)) (pre @ xs) = pre @ takeWhile p xs"
proof -
  have "length xs = length (takeWhile p xs) + length (dropWhile p xs)"
    by (metis length_append takeWhile_dropWhile_id)
  then have "length (pre @ xs) - length (dropWhile p xs) = length (pre @ takeWhile p xs)"
    by simp
  moreover have "pre @ xs = (pre @ takeWhile p xs) @ dropWhile p xs"
    by simp
  ultimately show ?thesis
    by (metis append_eq_conv_conj)
qed

lemma star_greedy_cls_total:
  "star Greedy (length xs) (matchRe (Cls p)) Some (b, xs, c)
   = Some (rev (takeWhile p xs) @ b, dropWhile p xs, c)"
  by (induction xs arbitrary: b) (auto simp: rest_def)

lemma scanMatches_matches:
  "seg \<in> set (fst (scanMatches r n b u s)) \<Longrightarrow> \<exists>b' s'. exec r b' s' = Some (snd seg)"
proof (induction s arbitrary: n b u)
  case Nil
  then show ?case by (auto split: if_splits option.splits)
next
  case (Cons x xs)
  show ?case
  proof (cases n)
    case (Suc m)
    with Cons show ?thesis by simp
  next
    case 0
    show ?thesis
    proof (cases "exec r b (x # xs)")
      case None
      with 0 Cons show ?thesis by simp
    next
      case (Some mt)
      with 0 Cons.prems have "seg = (rev u, mt) \<or> seg \<in> set (fst (scanMatches r 0 (x # b) [x] xs))
          \<or> seg \<in> set (fst (scanMatches r (length (matched mt) - 1) (x # b) [] xs))"
        by (auto split: if_splits prod.splits)
      then show ?thesis
      proof (elim disjE)
        assume "seg = (rev u, mt)"
        with Some show ?thesis by (metis snd_conv)
      next
        assume "seg \<in> set (fst (scanMatches r 0 (x # b) [x] xs))"
        then show ?thesis by (rule Cons.IH)
      next
        assume "seg \<in> set (fst (scanMatches r (length (matched mt) - 1) (x # b) [] xs))"
        then show ?thesis by (rule Cons.IH)
      qed
    qed
  qed
qed

lemma dropWhile_Cons_not_all: "dropWhile p xs = y # r \<Longrightarrow> \<forall>x\<in>set xs. p x \<Longrightarrow> False"
  by (metis dropWhile_eq_Nil_conv list.simps(3))

lemma lazy_star_one_char:
  assumes body: "\<And>k b xs c. body k (b, xs, c)
      = (case xs of [] \<Rightarrow> None | x # xs' \<Rightarrow> if q x then k (x # b, xs', c) else None)"
    and q: "\<And>x. q x \<Longrightarrow> x \<noteq> e"
    and k: "\<And>b' xs' c'. xs' = [] \<or> hd xs' \<noteq> e \<Longrightarrow> k (b', xs', c') = None"
  shows "star Lazy (length xs) body k (b, xs, c)
    = (case dropWhile q xs of
         [] \<Rightarrow> None
       | y # r \<Rightarrow> if y = e then k (rev (takeWhile q xs) @ b, y # r, c) else None)"
proof (induction xs arbitrary: b)
  case Nil
  then show ?case by (simp add: k)
next
  case (Cons x xs)
  show ?case
  proof (cases "q x")
    case True
    then have "x \<noteq> e" by (rule q)
    then have "k (b, x # xs, c) = None" by (simp add: k)
    with True have "star Lazy (length (x # xs)) body k (b, x # xs, c)
        = star Lazy (length xs) body k (x # b, xs, c)"
      by (simp add: body rest_def)
    moreover from True have "takeWhile q (x # xs) = x # takeWhile q xs"
      and "dropWhile q (x # xs) = dropWhile q xs" by simp_all
    ultimately show ?thesis
      by (simp only: Cons.IH rev.simps append_assoc append_Cons append_Nil)
  next
    case False
    show ?thesis
    proof (cases "x = e")
      case True
      with False show ?thesis
        by (simp add: body rest_def split: option.splits)
    next
      case nd: False
      then have "k (b, x # xs, c) = None" by (simp add: k)
      with False nd show ?thesis
        by (simp add: body rest_def)
    qed
  qed
qed


section \<open>Captures\<close>

lemma capsKept_refl: "capsKept s s"
  by (simp add: capsKept_def)

lemma capsKept_trans: "capsKept s s' \<Longrightarrow> capsKept s' s'' \<Longrightarrow> capsKept s s''"
  by (auto simp: capsKept_def)

lemma star_reaches:
  assumes body: "\<And>k s t. body k s = Some t \<Longrightarrow> \<exists>s'. k s' = Some t \<and> capsKept s s'"
  shows "star g n body k s = Some t \<Longrightarrow> \<exists>s'. k s' = Some t \<and> capsKept s s'"
proof (induction n arbitrary: s)
  case 0
  then have "k s = Some t" by simp
  then show ?case using capsKept_refl by blast
next
  case (Suc n)
  let ?K = "\<lambda>t. if length (rest t) < length (rest s) then star g n body k t else None"
  from Suc.prems have "k s = Some t \<or> body ?K s = Some t"
    by (cases g) (auto split: option.splits)
  then show ?case
  proof
    assume "k s = Some t"
    then show ?thesis using capsKept_refl by blast
  next
    assume "body ?K s = Some t"
    then obtain s1 where s1: "?K s1 = Some t" "capsKept s s1"
      using body by blast
    then have "star g n body k s1 = Some t" by (auto split: if_splits)
    then obtain s' where "k s' = Some t" "capsKept s1 s'" using Suc.IH by blast
    with s1 show ?thesis using capsKept_trans by blast
  qed
qed

lemma matchRe_reaches:
  "matchRe r k s = Some t \<Longrightarrow>
   \<exists>s'. k s' = Some t \<and> capsKept s s' \<and> (setsGroup i r \<longrightarrow> caps s' i \<noteq> None)"
proof (induction r arbitrary: k s t)
  case (Lit l)
  then show ?case
    by (cases s) (auto simp: capsKept_def caps_def split: if_splits)
next
  case (Cls p)
  then show ?case
    by (cases s) (auto simp: capsKept_def caps_def split: if_splits list.splits)
next
  case (Seq a b)
  from Seq.prems have "matchRe a (matchRe b k) s = Some t" by simp
  then obtain s1 where s1: "matchRe b k s1 = Some t" "capsKept s s1"
      "setsGroup i a \<longrightarrow> caps s1 i \<noteq> None"
    using Seq.IH(1) by blast
  then obtain s2 where s2: "k s2 = Some t" "capsKept s1 s2" "setsGroup i b \<longrightarrow> caps s2 i \<noteq> None"
    using Seq.IH(2) by blast
  from s1 s2 have "setsGroup i (Seq a b) \<longrightarrow> caps s2 i \<noteq> None"
    by (auto simp: capsKept_def)
  with s1 s2 show ?case using capsKept_trans by blast
next
  case (Alt a b)
  from Alt.prems have "matchRe a k s = Some t \<or> matchRe b k s = Some t"
    by (auto split: option.splits)
  then show ?case
  proof
    assume "matchRe a k s = Some t"
    from Alt.IH(1) [OF this] show ?thesis by auto
  next
    assume "matchRe b k s = Some t"
    from Alt.IH(2) [OF this] show ?thesis by auto
  qed
next
  case (Star g a)
  have "\<And>k s t. matchRe a k s = Some t \<Longrightarrow> \<exists>s'. k s' = Some t \<and> capsKept s s'"
    using Star.IH by blast
  from star_reaches [of "matchRe a", OF this] Star.prems show ?case
    by simp
next
  case (Grp j a)
  let ?K = "\<lambda>t. case t of (b, r, c) \<Rightarrow>
      k (b, r, c(j \<mapsto> take (length (rest s) - length r) (rest s)))"
  from Grp.prems have "matchRe a ?K s = Some t" by simp
  then obtain s1 where s1: "?K s1 = Some t" "capsKept s s1" "setsGroup i a \<longrightarrow> caps s1 i \<noteq> None"
    using Grp.IH by blast
  obtain b1 r1 c1 where t1: "s1 = (b1, r1, c1)" by (cases s1)
  let ?s' = "(b1, r1, c1(j \<mapsto> take (length (rest s) - length r1) (rest s)))"
  from s1 t1 have "k ?s' = Some t" by simp
  moreover from s1 t1 have "capsKept s ?s'"
    by (auto simp: capsKept_def caps_def)
  moreover from s1 t1 have "setsGroup i (Grp j a) \<longrightarrow> caps ?s' i \<noteq> None"
    by (auto simp: caps_def)
  ultimately show ?case by blast
next
  case (Ahead pos a)
  show ?case
  proof (cases "matchRe a Some s")
    case None
    with Ahead.prems have "\<not> pos" and "k s = Some t"
      by (auto split: if_splits)
    then have "k s = Some t \<and> capsKept s s \<and> (setsGroup i (Ahead pos a) \<longrightarrow> caps s i \<noteq> None)"
      using capsKept_refl by simp
    then show ?thesis by blast
  next
    case (Some t1)
    with Ahead.prems have pos: pos and k: "k (fst s, rest s, caps t1) = Some t"
      by (auto split: if_splits)
    from Ahead.IH [OF Some] have "capsKept s t1" "setsGroup i a \<longrightarrow> caps t1 i \<noteq> None"
      by auto
    then have "capsKept s (fst s, rest s, caps t1)"
      "setsGroup i (Ahead pos a) \<longrightarrow> caps (fst s, rest s, caps t1) i \<noteq> None"
      by (auto simp: capsKept_def caps_def)
    with k show ?thesis by blast
  qed
next
  case (Behind pos p)
  then have "k s = Some t"
    by (cases s) (auto split: if_splits)
  then have "k s = Some t \<and> capsKept s s \<and> (setsGroup i (Behind pos p) \<longrightarrow> caps s i \<noteq> None)"
    using capsKept_refl by simp
  then show ?case by blast
next
  case Bol
  then have "k s = Some t"
    by (auto split: if_splits)
  then have "k s = Some t \<and> capsKept s s \<and> (setsGroup i Bol \<longrightarrow> caps s i \<noteq> None)"
    using capsKept_refl by simp
  then show ?case by blast
qed

lemma exec_setsGroup:
  assumes "exec r b s = Some mt" and "setsGroup i r"
  shows "groups mt i \<noteq> None"
proof -
  from assms(1) obtain t where t: "matchRe r Some (b, s, \<lambda>i. None) = Some t" "groups mt = caps t"
    by (auto simp: exec_def split: option.splits)
  from matchRe_reaches [OF t(1), of i] assms(2) have "caps t i \<noteq> None" by auto
  with t show ?thesis by simp
qed

lemma scan_setsGroup:
  assumes "setsGroup i r" and "seg \<in> set (fst (scanMatches r n b u s))"
  shows "groups (snd seg) i \<noteq> None"
  using scanMatches_matches [OF assms(2)] exec_setsGroup [OF _ assms(1)] by blast

lemma substSt_total:
  assumes "\<And>seg st. seg \<in> set segs \<Longrightarrow> f (snd seg) st \<noteq> None"
  shows "substSt f segs st \<noteq> None"
  using assms
proof (induction segs arbitrary: st)
  case Nil
  then show ?case by simp
next
  case (Cons seg segs)
  obtain u mt where seg: "seg = (u, mt)" by (cases seg)
  from Cons.prems [of seg st] seg obtain rep st' where f: "f mt st = Some (rep, st')"
    by auto
  have "substSt f segs st' \<noteq> None"
    by (rule Cons.IH) (simp add: Cons.prems)
  with f seg show ?case by (auto split: option.splits)
qed

lemma substFn_total:
  assumes "\<And>seg. seg \<in> set segs \<Longrightarrow> f (snd seg) \<noteq> None"
  shows "substFn f segs \<noteq> None"
  using assms
proof (induction segs)
  case Nil
  then show ?case by simp
next
  case (Cons seg segs)
  obtain u mt where seg: "seg = (u, mt)" by (cases seg)
  from Cons.prems [of seg] seg obtain rep where f: "f mt = Some rep"
    by auto
  have "substFn f segs \<noteq> None"
    by (rule Cons.IH) (simp add: Cons.prems)
  with f seg show ?case by (auto split: option.splits)
qed

lemma replaceSt_total:
  assumes "\<And>mt st. groups mt i \<noteq> None \<Longrightarrow> f mt st \<noteq> None" and "setsGroup i r"
  shows "\<exists>res. replaceSt r f s st = Some res"
proof -
  obtain segs rm where sc: "scanMatches r 0 [] [] s = (segs, rm)" by (cases "scanMatches r 0 [] [] s")
  have "substSt f segs st \<noteq> None"
  proof (rule substSt_total)
    fix seg st'
    assume "seg \<in> set segs"
    with sc have "seg \<in> set (fst (scanMatches r 0 [] [] s))" by simp
    from scan_setsGroup [OF assms(2) this] show "f (snd seg) st' \<noteq> None" by (rule assms(1))
  qed
  with sc show ?thesis by (auto simp: replaceSt_def split: option.splits)
qed

lemma replaceFn_total:
  assumes "\<And>mt. groups mt i \<noteq> None \<Longrightarrow> f mt \<noteq> None" and "setsGroup i r"
  shows "\<exists>res. replaceFn r f s = Some res"
proof -
  obtain segs rm where sc: "scanMatches r 0 [] [] s = (segs, rm)" by (cases "scanMatches r 0 [] [] s")
  have "substFn f segs \<noteq> None"
  proof (rule substFn_total)
    fix seg
    assume "seg \<in> set segs"
    with sc have "seg \<in> set (fst (scanMatches r 0 [] [] s))" by simp
    from scan_setsGroup [OF assms(2) this] show "f (snd seg) \<noteq> None" by (rule assms(1))
  qed
  with sc show ?thesis by (auto simp: replaceFn_def split: option.splits)
qed

lemma exec_matched_prefix: "exec r b s = Some mt \<Longrightarrow> prefix (matched mt) s"
  by (auto simp: exec_def take_is_prefix split: option.splits)

lemma scan_rebuild:
  "n \<le> length s \<Longrightarrow>
   concat (map (\<lambda>seg. fst seg @ matched (snd seg)) (fst (scanMatches r n b u s)))
     @ snd (scanMatches r n b u s) = rev u @ drop n s"
proof (induction s arbitrary: n b u)
  case Nil
  then show ?case
    using exec_matched_prefix [of r b "[]"] by (auto split: option.splits)
next
  case (Cons x xs)
  show ?case
  proof (cases n)
    case (Suc m)
    with Cons show ?thesis by simp
  next
    case 0
    show ?thesis
    proof (cases "exec r b (x # xs)")
      case None
      with 0 Cons.IH [of 0 "x # b" "x # u"] show ?thesis by simp
    next
      case (Some mt)
      from exec_matched_prefix [OF Some] obtain zs where zs: "x # xs = matched mt @ zs"
        by (auto simp: prefix_def)
      show ?thesis
      proof (cases "matched mt = []")
        case True
        with 0 Some Cons.IH [of 0 "x # b" "[x]"] show ?thesis
          by (simp add: case_prod_unfold)
      next
        case False
        then obtain m' where m': "matched mt = x # m'" using zs by (cases "matched mt") auto
        with zs have xs: "xs = m' @ zs" by simp
        then have le: "length (matched mt) - 1 \<le> length xs" using m' by simp
        from Cons.IH [OF le, of "x # b" "[]"] m' xs 0 Some False show ?thesis
          by (simp add: case_prod_unfold)
      qed
    qed
  qed
qed

lemma scan_no_match: "fst (scanMatches r 0 [] [] s) = [] \<Longrightarrow> snd (scanMatches r 0 [] [] s) = s"
  using scan_rebuild [of 0 s r "[]" "[]"] by simp

lemma replaceAll_nonempty:
  assumes "s \<noteq> []" and "36 \<notin> set t" and "t \<noteq> []"
  shows "replaceAll r t s \<noteq> []"
proof (cases "fst (scanMatches r 0 [] [] s)")
  case Nil
  with scan_no_match [OF Nil] assms(1,2) show ?thesis
    by (simp add: replaceAll_render render_def)
next
  case (Cons seg segs)
  with assms(2,3) show ?thesis
    by (simp add: replaceAll_render render_def)
qed

lemma scan_Bol_later: "b \<noteq> [] \<Longrightarrow> fst (scanMatches (Seq Bol r) n b u s) = []"
  by (induction s arbitrary: n b u) (auto simp: exec_def split: nat.splits)

lemma test_Bol: "test (Seq Bol r) s = (exec (Seq Bol r) [] s \<noteq> None)"
  by (cases s) (auto simp: test_def matchFirst_def scan_Bol_later split: option.splits list.splits prod.splits)


lemma matches_Alt: "matches (Alt a b) k s = (matches a k s \<or> matches b k s)"
  by (auto simp: matches_def split: option.splits)

lemma matches_Lit: "(\<And>t. k t \<noteq> None) \<Longrightarrow> matches (Lit l) k (b, s, c) = prefix l s"
  by (simp add: matches_def)

lemma matches_Cls: "(\<And>t. k t \<noteq> None) \<Longrightarrow> matches (Cls p) k (b, s, c) = (s \<noteq> [] \<and> p (hd s))"
  by (cases s) (simp_all add: matches_def)

lemma matches_Seq_Lit:
  "matches (Seq (Lit l) r) k (b, s, c) = (prefix l s \<and> matches r k (rev l @ b, drop (length l) s, c))"
  by (simp add: matches_def)

lemma matches_Seq_Bol: "matches (Seq Bol r) k (b, s, c) = (b = [] \<and> matches r k (b, s, c))"
  by (simp add: matches_def)

lemma matches_Grp:
  "matches (Grp i r) k (b, s, c)
   = matches r (\<lambda>t. case t of (b', r', c') \<Rightarrow> k (b', r', c'(i \<mapsto> take (length s - length r') s))) (b, s, c)"
  by (simp add: matches_def rest_def)

section \<open>Matching a text with symbolic parts\<close>





lemma greedy_star_full:
  assumes body: "\<And>k b x xs c. body k (b, x # xs, c) = (if q x then k (x # b, xs, c) else None)"
    and empty: "\<And>k b c. body k (b, [], c) = None"
    and all: "\<forall>y\<in>set w. q y" and stop: "tail = [] \<or> \<not> q (hd tail)"
    and some: "k (rev w @ b, tail, c) = Some t"
  shows "star Greedy (length (w @ tail)) body k (b, w @ tail, c) = Some t"
  using all some
proof (induction w arbitrary: b)
  case Nil
  show ?case
  proof (cases tail)
    case Nil
    with Nil.prems show ?thesis by simp
  next
    case (Cons z zs)
    with stop have "\<not> q z" by simp
    with Cons Nil.prems show ?thesis by (simp add: body)
  qed
next
  case (Cons y w)
  from Cons.prems have later: "star Greedy (length (w @ tail)) body k (y # b, w @ tail, c) = Some t"
    by (intro Cons.IH) simp_all
  from Cons.prems(1) have "q y" by simp
  then have "star Greedy (length ((y # w) @ tail)) body k (b, (y # w) @ tail, c)
        = (case star Greedy (length (w @ tail)) body k (y # b, w @ tail, c) of
             Some r \<Rightarrow> Some r | None \<Rightarrow> k (b, y # w @ tail, c))"
    by (simp add: body rest_def)
  with later show ?case by simp
qed

lemma cls_step:
  "matchRe (Cls q) k (b, x # xs, c) = (if q x then k (x # b, xs, c) else None)"
  "matchRe (Cls q) k (b, [], c) = None"
  by simp_all


text \<open>A pattern that matches the whole of a text gives one segment.\<close>

lemma scan_whole:
  assumes "exec r [] s = Some mt" and "matched mt = s" and "s \<noteq> []" and "litPrefix r \<noteq> []"
  shows "scanMatches r 0 [] [] s = ([([], mt)], [])"
proof -
  from assms(3) obtain x xs where s: "s = x # xs" by (cases s) auto
  have "scanMatches r (length xs) [x] [] (xs @ []) = scanMatches r 0 (rev xs @ [x]) [] []"
    by (rule scanMatches_skip_prefix)
  moreover have "exec r (rev xs @ [x]) [] = None"
    using assms(4) by (intro exec_litPrefix) simp
  ultimately have "scanMatches r (length xs) [x] [] xs = ([], [])" by simp
  with assms(1,2) s show ?thesis by simp
qed


lemma replaceSt_whole:
  assumes "exec r [] s = Some mt" and "matched mt = s" and "s \<noteq> []" and "litPrefix r \<noteq> []"
    and "f mt st = Some (rep, st')"
  shows "replaceSt r f s st = Some (rep, st')"
  by (simp add: replaceSt_def scan_whole [OF assms(1-4)] assms(5))


section \<open>Trimming, pairs of characters, blank lines\<close>








section \<open>Evaluation\<close>

lemmas engine = exec_def rest_def caps_def Plus_def Opt_def notCh_def anyCh_def dot_def capture_def
  isDigit_def

lemmas strs = js_def cmd_def BS_def

lemmas passes = applyAll_Cons applyAll_Nil applyAll_append preamblePasses_def frontMatterPasses_def
  sectionPasses_def formattingPasses_def texorpdfstringPass_def textupPass_def lineBreakPasses_def
  mathTemplatePasses_def notePasses_def specialTextPasses_def fallbackPasses_def displayPasses_def
  displayTemplate_def inlineTemplate_def itemInnerPasses_def

lemmas skips = replaceAll_skip replaceFn_skip replaceSt_skip matchFirst_skip splitRe_skip
  litPrefix_patterns sublist_Cons_right

section \<open>A list of two items\<close>

lemma two_items_protect:
  "protectMath (cmd ''begin{itemize}'' @ cmd ''item First'' @ cmd ''item Second'' @ cmd ''end{itemize}'')
   = Some (cmd ''begin{itemize}'' @ cmd ''item First'' @ cmd ''item Second'' @ cmd ''end{itemize}'', [], 0)"
  by (simp add: protectMath_def passes skips strs)

lemma two_items_strip:
  "stripPreamble (cmd ''begin{itemize}'' @ cmd ''item First'' @ cmd ''item Second'' @ cmd ''end{itemize}'')
   = cmd ''begin{itemize}'' @ cmd ''item First'' @ cmd ''item Second'' @ cmd ''end{itemize}''"
  by (simp add: stripPreamble_def passes skips strs)

lemma two_items_first:
  "structureFirst (cmd ''begin{itemize}'' @ cmd ''item First'' @ cmd ''item Second'' @ cmd ''end{itemize}'')
   = cmd ''begin{itemize}'' @ cmd ''item First'' @ cmd ''item Second'' @ cmd ''end{itemize}''"
  by (simp add: structureFirst_def passes skips strs)

lemma two_items_second:
  "structureSecond (cmd ''begin{itemize}'' @ cmd ''item First'' @ cmd ''item Second'' @ cmd ''end{itemize}'')
   = ([], cmd ''begin{itemize}'' @ cmd ''item First'' @ cmd ''item Second'' @ cmd ''end{itemize}'')"
  by (simp add: structureSecond_def titleHtmlOf_def passes skips strs)

text \<open>The pattern of an item finds the first item only: after the second one the captured
  text ends, and neither \<^verbatim>\<open>\item\<close> nor \<^verbatim>\<open>\end\<close> follows.\<close>

lemma two_items_matchAll:
  "matchAll reItem (cmd ''item First'' @ cmd ''item Second'') = [cmd ''item First'']"
  by (simp add: matchAll_def engine strs reItem_def isSpace_def)

lemma two_items_itemText: "itemText (cmd ''item First'') = js ''First''"
  by (simp add: itemText_def replaceFirst_def engine strs reItemHead_def isSpace_def trim_def
      passes skips)

lemma two_items_itemize:
  \<open>replaceFn (reEnv1 ''itemize'') itemizeFn
     (cmd ''begin{itemize}'' @ cmd ''item First'' @ cmd ''item Second'' @ cmd ''end{itemize}'')
   = Some (js ''<ul class="my-4"><li class="ml-4 mb-2 flex items-start"><span class="mr-3">'' @ 8226
           # js ''</span><span>First</span></li></ul>'')\<close>
  by (simp add: replaceFn_def engine strs reEnv1_def itemizeFn_def itemizeItem_def
      two_items_matchAll [unfolded strs, simplified] two_items_itemText [unfolded strs, simplified])

lemma two_items_plain:
  \<open>BS \<notin> set (js ''<ul class="my-4"><li class="ml-4 mb-2 flex items-start"><span class="mr-3">'' @ 8226
           # js ''</span><span>First</span></li></ul>'')\<close>
  \<open>\<not> sublist (js ''--'') (js ''<ul class="my-4"><li class="ml-4 mb-2 flex items-start"><span class="mr-3">'' @ 8226
           # js ''</span><span>First</span></li></ul>'')\<close>
  \<open>\<not> sublist (js ''``'') (js ''<ul class="my-4"><li class="ml-4 mb-2 flex items-start"><span class="mr-3">'' @ 8226
           # js ''</span><span>First</span></li></ul>'')\<close>
  \<open>\<not> sublist [39, 39] (js ''<ul class="my-4"><li class="ml-4 mb-2 flex items-start"><span class="mr-3">'' @ 8226
           # js ''</span><span>First</span></li></ul>'')\<close>
  by (simp_all add: strs sublist_Cons_right)

lemma two_items_environments:
  \<open>environments
     (cmd ''begin{itemize}'' @ cmd ''item First'' @ cmd ''item Second'' @ cmd ''end{itemize}'')
   = Some (js ''<ul class="my-4"><li class="ml-4 mb-2 flex items-start"><span class="mr-3">'' @ 8226
           # js ''</span><span>First</span></li></ul>'')\<close>
proof -
  note nb = two_items_plain(1)
  have c1: \<open>{BS} \<inter> set (js ''<ul class="my-4"><li class="ml-4 mb-2 flex items-start"><span class="mr-3">'' @ 8226
           # js ''</span><span>First</span></li></ul>'') = {}\<close>
    using nb by blast
  have skipFn: \<open>\<And>r f. litPrefix r \<noteq> [] \<Longrightarrow> hd (litPrefix r) = BS \<Longrightarrow>
      replaceFn r f (js ''<ul class="my-4"><li class="ml-4 mb-2 flex items-start"><span class="mr-3">'' @ 8226
           # js ''</span><span>First</span></li></ul>'')
      = Some (js ''<ul class="my-4"><li class="ml-4 mb-2 flex items-start"><span class="mr-3">'' @ 8226
           # js ''</span><span>First</span></li></ul>'')\<close>
    using nb no_char_no_sublist replaceFn_skip by metis
  show ?thesis
    by (simp add: environments_def two_items_itemize applyAll_plain [OF backslash_passes(8) c1]
        skipFn litPrefix_patterns hd_cmd)
qed

lemma two_items_finish:
  \<open>finish (js ''<ul class="my-4"><li class="ml-4 mb-2 flex items-start"><span class="mr-3">'' @ 8226
           # js ''</span><span>First</span></li></ul>'')
   = js ''<ul class="my-4"><li class="ml-4 mb-2 flex items-start"><span class="mr-3">'' @ 8226
           # js ''</span><span>First</span></li></ul>''\<close>
  by (rule finish_plain) (rule two_items_plain)+

lemma two_items_paragraphize:
  \<open>paragraphize (js ''<ul class="my-4"><li class="ml-4 mb-2 flex items-start"><span class="mr-3">'' @ 8226
           # js ''</span><span>First</span></li></ul>'')
   = js ''<ul class="my-4"><li class="ml-4 mb-2 flex items-start"><span class="mr-3">'' @ 8226
           # js ''</span><span>First</span></li></ul>''\<close>
  by (simp add: paragraphize_def wrapPara_def skips strs matchFirst_def test_def engine trim_def
      isSpace_def reBlockTag_def)

text \<open>
  Claim C3.  The converter is run on the input
  \<^verbatim>\<open>\begin{itemize}\item First\item Second\end{itemize}\<close>.  The unordered list that comes
  out has one item, \<^verbatim>\<open>First\<close>; the item \<^verbatim>\<open>Second\<close> is lost.
\<close>

theorem two_items_lose_the_last:
  \<open>convertLaTeXToHTML
     (cmd ''begin{itemize}'' @ cmd ''item First'' @ cmd ''item Second'' @ cmd ''end{itemize}'')
   = Some (js ''<ul class="my-4"><li class="ml-4 mb-2 flex items-start"><span class="mr-3">'' @ 8226
           # js ''</span><span>First</span></li></ul>'')\<close>
  by (simp add: convertLaTeXToHTML_def two_items_protect transform_def two_items_strip
      two_items_first two_items_second two_items_environments two_items_finish
      two_items_paragraphize restore_def)
section \<open>The fallback passes\<close>

lemma exec_reCommand:
  "exec reCommand b s =
     (case s of
        x # y # t \<Rightarrow>
          if x = BS \<and> isLetter y
          then Some \<lparr>matched = x # y # takeWhile isLetter t, groups = (\<lambda>i. None), ngroup = 0,
                      before = rev b, after = dropWhile isLetter t\<rparr>
          else None
      | _ \<Rightarrow> None)"
  using take_upto_dropWhile [of "[BS, hd (tl s)]" "tl (tl s)" isLetter]
  by (auto simp: exec_def reCommand_def Plus_def rest_def caps_def star_greedy_cls_total
      split: list.splits)

lemma exec_reSymbol:
  "exec reSymbol b s =
     (case s of
        x # y # t \<Rightarrow>
          if x = BS \<and> \<not> isLetter y
          then Some \<lparr>matched = [x, y], groups = (\<lambda>i. None), ngroup = 0,
                      before = rev b, after = t\<rparr>
          else None
      | _ \<Rightarrow> None)"
  by (auto simp: exec_def reSymbol_def rest_def caps_def split: list.splits)

lemma render_scan_reCommand:
  "render [] (scanMatches reCommand 0 b u s) = rev u @ stripCommand s"
proof (induction s arbitrary: b u rule: stripCommand.induct)
  case 1
  then show ?case by (simp add: render_def exec_reCommand)
next
  case (2 x)
  then show ?case by (simp add: render_def exec_reCommand)
next
  case (3 x y t)
  show ?case
  proof (cases "x = BS \<and> isLetter y")
    case True
    have "scanMatches reCommand (length (y # takeWhile isLetter t)) (x # b) []
            ((y # takeWhile isLetter t) @ dropWhile isLetter t)
          = scanMatches reCommand 0 (rev (y # takeWhile isLetter t) @ x # b) [] (dropWhile isLetter t)"
      by (rule scanMatches_skip_prefix)
    then have sk: "scanMatches reCommand (Suc (length (takeWhile isLetter t))) (x # b) [] (y # t)
          = scanMatches reCommand 0 (rev (y # takeWhile isLetter t) @ x # b) [] (dropWhile isLetter t)"
      by simp
    from True "3.IH"(1) [of "rev (y # takeWhile isLetter t) @ x # b" "[]"]
    have "render [] (scanMatches reCommand 0 (rev (y # takeWhile isLetter t) @ x # b) [] (dropWhile isLetter t))
          = stripCommand (dropWhile isLetter t)"
      by simp
    with True sk show ?thesis
      by (simp add: exec_reCommand render_step)
  next
    case False
    from False "3.IH"(2) [of "x # b" "x # u"] show ?thesis
      by (auto simp: exec_reCommand)
  qed
qed

lemma render_scan_reSymbol:
  "render [] (scanMatches reSymbol 0 b u s) = rev u @ stripSymbol s"
proof (induction s arbitrary: b u rule: stripSymbol.induct)
  case 1
  then show ?case by (simp add: render_def exec_reSymbol)
next
  case (2 x)
  then show ?case by (simp add: render_def exec_reSymbol)
next
  case (3 x y t)
  show ?case
  proof (cases "x = BS \<and> \<not> isLetter y")
    case True
    from True "3.IH"(1) [of "y # x # b" "[]"] show ?thesis
      by (simp add: exec_reSymbol render_step)
  next
    case False
    from False "3.IH"(2) [of "x # b" "x # u"] show ?thesis
      by (auto simp: exec_reSymbol)
  qed
qed

lemma stripCommand_head:
  "s = [] \<or> \<not> isLetter (hd s) \<Longrightarrow> stripCommand s = [] \<or> \<not> isLetter (hd (stripCommand s))"
proof (induction s rule: stripCommand.induct)
  case (3 x y t)
  show ?case
  proof (cases "x = BS \<and> isLetter y")
    case True
    have "dropWhile isLetter t = [] \<or> \<not> isLetter (hd (dropWhile isLetter t))"
      by (metis hd_dropWhile)
    with True "3.IH"(1) show ?thesis by simp
  next
    case False
    with "3.prems" show ?thesis by auto
  qed
qed simp_all

lemma hasCommandToken_Cons:
  "hasCommandToken (x # zs) = ((x = BS \<and> zs \<noteq> [] \<and> isLetter (hd zs)) \<or> hasCommandToken zs)"
  by (cases zs) auto

lemma stripCommand_clean: "\<not> hasCommandToken (stripCommand s)"
proof (induction s rule: stripCommand.induct)
  case (3 x y t)
  show ?case
  proof (cases "x = BS \<and> isLetter y")
    case True
    with "3.IH"(1) show ?thesis by simp
  next
    case False
    then have "x = BS \<Longrightarrow> \<not> isLetter (hd (y # t))" by auto
    then have "x = BS \<Longrightarrow> stripCommand (y # t) = [] \<or> \<not> isLetter (hd (stripCommand (y # t)))"
      using stripCommand_head [of "y # t"] by blast
    with False "3.IH"(2) show ?thesis
      by (auto simp: hasCommandToken_Cons)
  qed
qed simp_all

lemma stripSymbol_clean: "\<not> hasCommandToken s \<Longrightarrow> \<not> hasCommandToken (stripSymbol s)"
proof (induction s rule: stripSymbol.induct)
  case (3 x y t)
  show ?case
  proof (cases "x = BS \<and> \<not> isLetter y")
    case True
    from "3.prems" have "\<not> hasCommandToken t"
      by (simp add: hasCommandToken_Cons)
    with True "3.IH"(1) show ?thesis by simp
  next
    case False
    with "3.prems" have "x \<noteq> BS" by auto
    with False "3.prems" "3.IH"(2) show ?thesis
      by (auto simp: hasCommandToken_Cons)
  qed
qed simp_all

text \<open>
  Claim C6.  Whatever the text, once the three fallback passes have run on it, no backslash
  of the result is followed by a letter.
\<close>

theorem fallback_leaves_no_command: "\<not> hasCommandToken (applyAll fallbackPasses s)"
proof -
  have "applyAll fallbackPasses s
        = stripSymbol (stripCommand (replaceAll reCommandArg [] s))"
    by (simp add: fallbackPasses_def applyAll_Cons applyAll_Nil replaceAll_render
        render_scan_reCommand render_scan_reSymbol)
  then show ?thesis
    by (simp add: stripSymbol_clean stripCommand_clean)
qed

section \<open>The symbol escapes\<close>

lemma replaceAll_Lit_const:
  assumes "l \<noteq> []" and "\<And>mt. expand t mt = t"
  shows "replaceAll (Lit l) t s = replaceLit l t s"
proof -
  have "replaceAll (Lit l) t s = render t (scanMatches (Lit l) 0 [] [] s)"
    by (simp add: replaceAll_def render_def assms(2) case_prod_unfold)
  with assms(1) show ?thesis by (simp add: render_scan_Lit)
qed

lemma replaceLit_skip: "\<not> sublist l s \<Longrightarrow> replaceLit l t s = s"
proof (induction l t s rule: replaceLit.induct)
  case (2 l t x xs)
  from "2.prems" have "\<not> prefix l (x # xs)" and "\<not> sublist l xs"
    by (auto simp: sublist_Cons_right)
  with "2.IH"(2) show ?case by simp
qed simp

lemma length_replaceLit_le: "length t \<le> length l \<Longrightarrow> length (replaceLit l t s) \<le> length s"
proof (induction l t s rule: replaceLit.induct)
  case (2 l t x xs)
  show ?case
  proof (cases "l \<noteq> [] \<and> prefix l (x # xs)")
    case True
    then have "length l \<le> length (x # xs)" by (auto dest: prefix_length_le)
    with True 2 show ?thesis by (simp del: drop_Suc_Cons)
  next
    case False
    with 2 show ?thesis by auto
  qed
qed simp

lemma length_replaceLit_less:
  "length t < length l \<Longrightarrow> sublist l s \<Longrightarrow> length (replaceLit l t s) < length s"
proof (induction l t s rule: replaceLit.induct)
  case (1 l t)
  then show ?case by auto
next
  case (2 l t x xs)
  show ?case
  proof (cases "l \<noteq> [] \<and> prefix l (x # xs)")
    case True
    then have le: "length l \<le> length (x # xs)" by (auto dest: prefix_length_le)
    have "length (replaceLit l t (drop (length l) (x # xs))) \<le> length (drop (length l) (x # xs))"
      using "2.prems"(1) by (intro length_replaceLit_le) simp
    with True le "2.prems"(1) show ?thesis by (simp del: drop_Suc_Cons)
  next
    case False
    from "2.prems"(1) have "l \<noteq> []" by auto
    with False have np: "\<not> prefix l (x # xs)" by simp
    with "2.prems"(2) have "sublist l xs" by (simp add: sublist_Cons_right)
    with False "2.IH"(2) "2.prems"(1) show ?thesis by auto
  qed
qed

text \<open>A list of passes each of which puts a shorter text in place of a literal one.\<close>

lemma shortening_passes_skip:
  assumes "list_all (\<lambda>p. litPrefix (fst p) \<noteq> []) ps"
    and "\<not> list_ex (\<lambda>p. sublist (litPrefix (fst p)) s) ps"
  shows "applyAll ps s = s"
  using assms
proof (induction ps)
  case Nil
  then show ?case by (simp add: applyAll_Nil)
next
  case (Cons p ps)
  obtain r tmpl where p: "p = (r, tmpl)" by (cases p)
  with Cons.prems have "litPrefix r \<noteq> []" "\<not> sublist (litPrefix r) s" by auto
  then have "replaceAll r tmpl s = s" by (rule replaceAll_skip)
  with Cons p show ?case by (simp add: applyAll_Cons)
qed

lemma shortening_passes_length:
  assumes "list_all (\<lambda>p. \<exists>l. fst p = Lit l \<and> length (snd p) < length l
              \<and> (\<forall>mt. expand (snd p) mt = snd p)) ps"
  shows "length (applyAll ps s) \<le> length s"
    and "list_ex (\<lambda>p. sublist (litPrefix (fst p)) s) ps \<Longrightarrow> length (applyAll ps s) < length s"
  using assms
proof (induction ps arbitrary: s)
  case Nil
  { case 1 show ?case by (simp add: applyAll_Nil) }
  { case 2 then show ?case by simp }
next
  case (Cons p ps)
  obtain r tmpl where p: "p = (r, tmpl)" by (cases p)
  { case 1
    with p obtain l where l: "r = Lit l" "length tmpl < length l" "\<And>mt. expand tmpl mt = tmpl"
      and ps: "list_all (\<lambda>p. \<exists>l. fst p = Lit l \<and> length (snd p) < length l
              \<and> (\<forall>mt. expand (snd p) mt = snd p)) ps"
      by auto
    from l have ne: "l \<noteq> []" by auto
    have eq: "replaceAll r tmpl s = replaceLit l tmpl s"
      unfolding l(1) using ne l(3) by (rule replaceAll_Lit_const)
    have "length (replaceLit l tmpl s) \<le> length s"
      using l(2) by (intro length_replaceLit_le) simp
    moreover have "length (applyAll ps (replaceLit l tmpl s)) \<le> length (replaceLit l tmpl s)"
      using ps by (rule Cons.IH(1))
    ultimately show ?case by (simp add: p applyAll_Cons eq) }
  { case 2
    from "2"(2) p obtain l where l: "r = Lit l" "length tmpl < length l" "\<And>mt. expand tmpl mt = tmpl"
      and ps: "list_all (\<lambda>p. \<exists>l. fst p = Lit l \<and> length (snd p) < length l
              \<and> (\<forall>mt. expand (snd p) mt = snd p)) ps"
      by auto
    from l have ne: "l \<noteq> []" by auto
    have eq: "replaceAll r tmpl s = replaceLit l tmpl s"
      unfolding l(1) using ne l(3) by (rule replaceAll_Lit_const)
    have le: "length (applyAll ps (replaceLit l tmpl s)) \<le> length (replaceLit l tmpl s)"
      using ps by (rule Cons.IH(1))
    show ?case
    proof (cases "sublist l s")
      case True
      with l(2) have "length (replaceLit l tmpl s) < length s" by (rule length_replaceLit_less)
      with le show ?thesis by (simp add: p applyAll_Cons eq)
    next
      case False
      then have same: "replaceLit l tmpl s = s" by (rule replaceLit_skip)
      from False "2"(1) p l(1) have "list_ex (\<lambda>p. sublist (litPrefix (fst p)) s) ps" by simp
      then have "length (applyAll ps s) < length s" using ps by (rule Cons.IH(2))
      then show ?thesis by (simp add: p applyAll_Cons eq same)
    qed }
qed

lemma special_text_shape:
  "\<exists>t. applyAll specialTextPasses s
       = replaceLit [39, 39] [34] (replaceLit [96, 96] [34] (replaceLit [45, 45] [8211] t))"
proof -
  have lits: "js ''---'' = [45, 45, 45]" "js ''--'' = [45, 45]" "js ''``'' = [96, 96]"
    \<open>js ''"'' = [34]\<close>
    by (simp_all add: js_def)
  show ?thesis
    by (simp add: specialTextPasses_def applyAll_Cons applyAll_Nil lits replaceAll_Lit)
      (rule exI, rule refl)
qed

lemma special_text_no_pairs:
  "\<not> sublist [45, 45] (applyAll specialTextPasses s)"
  "\<not> sublist [96, 96] (applyAll specialTextPasses s)"
  "\<not> sublist [39, 39] (applyAll specialTextPasses s)"
  "\<not> sublist [45, 45, 45] (applyAll specialTextPasses s)"
proof -
  from special_text_shape [of s] obtain t where out: "applyAll specialTextPasses s
       = replaceLit [39, 39] [34] (replaceLit [96, 96] [34] (replaceLit [45, 45] [8211] t))"
    by blast
  show d2: "\<not> sublist [45, 45] (applyAll specialTextPasses s)"
    unfolding out by (intro replaceLit_pair_kept replaceLit_pair_gone) simp_all
  show "\<not> sublist [96, 96] (applyAll specialTextPasses s)"
    unfolding out by (intro replaceLit_pair_kept replaceLit_pair_gone) simp_all
  show "\<not> sublist [39, 39] (applyAll specialTextPasses s)"
    unfolding out by (intro replaceLit_pair_gone) simp_all
  have "sublist [45, 45] [45, 45, 45::nat]"
    by (simp add: sublist_Cons_right)
  with d2 show "\<not> sublist [45, 45, 45] (applyAll specialTextPasses s)"
    using sublist_order.order_trans by blast
qed

lemma special_text_shortening:
  "list_all (\<lambda>p. \<exists>l. fst p = Lit l \<and> length (snd p) < length l
      \<and> (\<forall>mt. expand (snd p) mt = snd p)) specialTextPasses"
  by (simp add: specialTextPasses_def strs)

lemma special_text_patterns:
  "list_all (\<lambda>p. litPrefix (fst p) \<noteq> []) specialTextPasses"
  by (simp add: specialTextPasses_def strs)

lemma special_text_escape_plain:
  assumes "\<not> sublist [45, 45] out" and "\<not> sublist [96, 96] out" and "\<not> sublist [39, 39] out"
    and "\<not> sublist [45, 45, 45] out"
  shows "list_ex (\<lambda>p. sublist (litPrefix (fst p)) out) specialTextPasses = hasEscape out"
proof -
  have lits: "js ''---'' = [45, 45, 45]" "js ''--'' = [45, 45]" "js ''``'' = [96, 96]"
    by (simp_all add: js_def)
  show ?thesis
    by (simp add: specialTextPasses_def hasEscape_def escapes_def lits assms)
qed

lemma special_text_escape:
  "list_ex (\<lambda>p. sublist (litPrefix (fst p)) (applyAll specialTextPasses s)) specialTextPasses
   = hasEscape (applyAll specialTextPasses s)"
  by (rule special_text_escape_plain) (rule special_text_no_pairs)+

text \<open>
  Claim C8, as the code has it.  Applied to its own output, the symbol-escape pass changes
  nothing exactly when that output holds none of the escape sequences \<^verbatim>\<open>\textbackslash\<close>,
  \<^verbatim>\<open>\$\<close>, \<^verbatim>\<open>\%\<close>, \<^verbatim>\<open>\{\<close>, \<^verbatim>\<open>\}\<close>, \<^verbatim>\<open>\_\<close>; so it changes nothing whenever the output holds no
  backslash.  (The output of the pass never holds two hyphens, two backticks or two
  apostrophes in a row.)
\<close>

theorem escapes_idempotent_iff:
  "(applyAll specialTextPasses (applyAll specialTextPasses s) = applyAll specialTextPasses s
      \<longleftrightarrow> \<not> hasEscape (applyAll specialTextPasses s))
   \<and> (BS \<notin> set (applyAll specialTextPasses s)
      \<longrightarrow> applyAll specialTextPasses (applyAll specialTextPasses s) = applyAll specialTextPasses s)"
proof -
  let ?out = "applyAll specialTextPasses s"
  have stays: "applyAll specialTextPasses ?out = ?out" if "\<not> hasEscape ?out"
    using special_text_patterns that unfolding special_text_escape [symmetric]
    by (rule shortening_passes_skip)
  have moves: "applyAll specialTextPasses ?out \<noteq> ?out" if "hasEscape ?out"
  proof -
    from that have "length (applyAll specialTextPasses ?out) < length ?out"
      unfolding special_text_escape [symmetric]
      by (rule shortening_passes_length(2) [OF special_text_shortening])
    then show ?thesis by auto
  qed
  have plain: "\<not> hasEscape ?out" if "BS \<notin> set ?out"
  proof -
    have "\<And>name. \<not> sublist (cmd name) ?out"
      using that by (intro no_char_no_sublist) (simp_all add: hd_cmd)
    then show ?thesis by (simp add: hasEscape_def escapes_def)
  qed
  from stays moves plain show ?thesis by blast
qed

lemma escapes_run:
  \<open>applyAll specialTextPasses
     (js ''50'' @ cmd ''% of '' @ cmd ''$5, a'' @ cmd ''_b '' @ cmd ''{c'' @ cmd ''}'')
   = js ''50% of $5, a_b {c}''\<close>
  by (simp add: specialTextPasses_def applyAll_Cons applyAll_Nil replaceAll_Lit_const replaceLit_skip strs)

theorem escapes_idempotent_witness:
  \<open>\<not> hasEscape (applyAll specialTextPasses
       (js ''50'' @ cmd ''% of '' @ cmd ''$5, a'' @ cmd ''_b '' @ cmd ''{c'' @ cmd ''}''))
   \<and> BS \<notin> set (applyAll specialTextPasses
       (js ''50'' @ cmd ''% of '' @ cmd ''$5, a'' @ cmd ''_b '' @ cmd ''{c'' @ cmd ''}''))
   \<and> applyAll specialTextPasses (applyAll specialTextPasses
       (js ''50'' @ cmd ''% of '' @ cmd ''$5, a'' @ cmd ''_b '' @ cmd ''{c'' @ cmd ''}''))
     = applyAll specialTextPasses
       (js ''50'' @ cmd ''% of '' @ cmd ''$5, a'' @ cmd ''_b '' @ cmd ''{c'' @ cmd ''}'')\<close>
proof -
  have bs: \<open>BS \<notin> set (js ''50% of $5, a_b {c}'')\<close>
    by (simp add: strs)
  show ?thesis
    using escapes_idempotent_iff
      [of "js ''50'' @ cmd ''% of '' @ cmd ''$5, a'' @ cmd ''_b '' @ cmd ''{c'' @ cmd ''}''"] bs
    unfolding escapes_run by blast
qed

text \<open>
  The output can hold an escape sequence, made of a backslash that one escape has left and of
  the character after it: two backslashes and a dollar sign become a backslash and a dollar
  sign, which the pass, run again, turns into a dollar sign.
\<close>

lemma escapes_first_run: "applyAll specialTextPasses [BS, BS, 36] = [BS, 36]"
  by (simp add: specialTextPasses_def applyAll_Cons applyAll_Nil replaceAll_def exec_Lit strs)

lemma escapes_second_run: "applyAll specialTextPasses [BS, 36] = [36]"
  by (simp add: specialTextPasses_def applyAll_Cons applyAll_Nil replaceAll_def exec_Lit strs)

theorem escapes_not_idempotent:
  "applyAll specialTextPasses (applyAll specialTextPasses [BS, BS, 36])
   \<noteq> applyAll specialTextPasses [BS, BS, 36]"
  unfolding escapes_first_run escapes_second_run by (simp add: BS_def)

section \<open>Inline math and line breaks\<close>

lemma inline_body_step:
  "matchRe (Seq (Ahead False (Lit [36])) dot) k (b, xs, c)
   = (case xs of [] \<Rightarrow> None | x # xs' \<Rightarrow> if inlineChar x then k (x # b, xs', c) else None)"
  by (auto simp: dot_def inlineChar_def rest_def split: list.splits)

lemma matchRe_reInline:
  "matchRe reInline Some (b, s, c0) =
     (case s of
        [] \<Rightarrow> None
      | x # s1 \<Rightarrow>
          if x \<noteq> 36 \<or> (b \<noteq> [] \<and> hd b = 36) \<or> (s1 \<noteq> [] \<and> hd s1 = 36) then None
          else (case dropWhile inlineChar s1 of
                  [] \<Rightarrow> None
                | y # r \<Rightarrow>
                    if y = 36
                    then Some (36 # rev (takeWhile inlineChar s1) @ 36 # b, r,
                               c0(1 \<mapsto> takeWhile inlineChar s1))
                    else None))"
proof (cases s)
  case Nil
  then show ?thesis
    by (simp add: reInline_def js_def rest_def split: list.splits)
next
  case (Cons x s1)
  let ?k = "\<lambda>t. case t of (b', r, c') \<Rightarrow>
      matchRe (Lit [36]) Some (b', r, c'(1 \<mapsto> take (length s1 - length r) s1))"
  have k: "\<And>b' xs' c'. xs' = [] \<or> hd xs' \<noteq> 36 \<Longrightarrow> ?k (b', xs', c') = None"
    by (auto simp: prefix_def)
  have q: "\<And>x. inlineChar x \<Longrightarrow> x \<noteq> 36"
    by (simp add: inlineChar_def)
  note star = lazy_star_one_char [of "matchRe (Seq (Ahead False (Lit [36])) dot)" inlineChar 36 ?k,
      OF inline_body_step q k]
  have unfold: "matchRe reInline Some (b, x # s1, c0)
      = (if x \<noteq> 36 \<or> (b \<noteq> [] \<and> hd b = 36) \<or> (s1 \<noteq> [] \<and> hd s1 = 36) then None
         else star Lazy (length s1) (matchRe (Seq (Ahead False (Lit [36])) dot)) ?k (36 # b, s1, c0))"
    by (cases b; cases s1) (auto simp: reInline_def js_def rest_def)
  have tk: "\<And>r. dropWhile inlineChar s1 = 36 # r \<Longrightarrow>
      take (length s1 - length r) s1 = takeWhile inlineChar s1 @ [36]
      \<and> take (length s1 - Suc (length r)) s1 = takeWhile inlineChar s1"
  proof -
    fix r
    assume d: "dropWhile inlineChar s1 = 36 # r"
    define tw where "tw = takeWhile inlineChar s1"
    have s1: "s1 = tw @ 36 # r"
      unfolding tw_def using d by (metis takeWhile_dropWhile_id)
    show "take (length s1 - length r) s1 = takeWhile inlineChar s1 @ [36]
      \<and> take (length s1 - Suc (length r)) s1 = takeWhile inlineChar s1"
      unfolding tw_def [symmetric] by (simp add: s1)
  qed
  have nd: "\<And>r. dropWhile inlineChar s1 = 36 # r \<Longrightarrow> \<forall>x\<in>set s1. inlineChar x \<Longrightarrow> False"
    by (metis dropWhile_eq_Nil_conv list.simps(3))
  have s2: "star Lazy (length s1) (matchRe (Seq (Ahead False (Lit [36])) dot)) ?k (36 # b, s1, c0)
      = (case dropWhile inlineChar s1 of
           [] \<Rightarrow> None
         | y # r \<Rightarrow> if y = 36 then ?k (rev (takeWhile inlineChar s1) @ 36 # b, y # r, c0) else None)"
    by (rule star)
  show ?thesis
    unfolding Cons
    apply (subst unfold)
    apply (subst s2)
    using tk nd by (auto split: list.splits)
qed

lemma exec_reInline:
  "exec reInline b s =
     (case s of
        [] \<Rightarrow> None
      | x # s1 \<Rightarrow>
          if x \<noteq> 36 \<or> (b \<noteq> [] \<and> hd b = 36) \<or> (s1 \<noteq> [] \<and> hd s1 = 36) then None
          else (case dropWhile inlineChar s1 of
                  [] \<Rightarrow> None
                | y # r \<Rightarrow>
                    if y = 36
                    then Some \<lparr>matched = 36 # takeWhile inlineChar s1 @ [36],
                                groups = [1 \<mapsto> takeWhile inlineChar s1],
                                ngroup = 1, before = rev b, after = r\<rparr>
                    else None))"
proof -
  have tk: "\<And>s1 r. dropWhile inlineChar s1 = 36 # r \<Longrightarrow>
      take (Suc (length s1) - length r) (36 # s1) = 36 # takeWhile inlineChar s1 @ [36]"
  proof -
    fix s1 r
    assume d: "dropWhile inlineChar s1 = 36 # r"
    define tw where "tw = takeWhile inlineChar s1"
    have s1: "s1 = tw @ 36 # r"
      unfolding tw_def using d by (metis takeWhile_dropWhile_id)
    show "take (Suc (length s1) - length r) (36 # s1) = 36 # takeWhile inlineChar s1 @ [36]"
      unfolding tw_def [symmetric] by (simp add: s1)
  qed
  have ng: "ngroups reInline = 1"
    by (simp add: reInline_def dot_def)
  show ?thesis
    unfolding exec_def matchRe_reInline ng
    using tk dropWhile_Cons_not_all [of inlineChar] by (auto simp: rest_def caps_def split: list.splits)
qed

lemma lineTerminator_free_match:
  assumes "exec reInline b s = Some mt"
  shows "\<not> list_ex isLineTerminator (matched mt)"
proof -
  from assms obtain s1 where "matched mt = 36 # takeWhile inlineChar s1 @ [36]"
    by (auto simp: exec_reInline split: list.splits if_splits)
  moreover have "\<forall>x \<in> set (takeWhile inlineChar s1). \<not> isLineTerminator x"
    using set_takeWhileD [of _ inlineChar s1] by (auto simp: inlineChar_def)
  ultimately show ?thesis
    by (auto simp: list_ex_iff isLineTerminator_def)
qed



lemma scan_reInline_no_dollar:
  "36 \<notin> set p \<Longrightarrow> scanMatches reInline 0 b u (p @ s) = scanMatches reInline 0 (rev p @ b) (rev p @ u) s"
  by (induction p arbitrary: b u) (auto simp: exec_reInline)

lemma exec_reInline_None:
  assumes "\<And>r. dropWhile inlineChar s1 \<noteq> 36 # r"
  shows "exec reInline b (36 # s1) = None"
  using assms by (auto simp: exec_reInline split: list.splits)

lemma exec_reInline_unclosed:
  assumes "36 \<notin> set post"
  shows "exec reInline b (36 # post) = None"
proof (rule exec_reInline_None)
  fix r
  show "dropWhile inlineChar post \<noteq> 36 # r"
  proof
    assume "dropWhile inlineChar post = 36 # r"
    then have "36 \<in> set post" by (metis list.set_intros(1) set_dropWhileD)
    with assms show False by simp
  qed
qed

lemma exec_reInline_line_break:
  assumes "36 \<notin> set mid" and "list_ex isLineTerminator mid"
  shows "exec reInline b (36 # mid @ tail) = None"
proof (rule exec_reInline_None)
  fix r
  from assms(2) obtain x where x: "x \<in> set mid" "\<not> inlineChar x"
    by (auto simp: list_ex_iff inlineChar_def)
  then have dw: "dropWhile inlineChar (mid @ tail) = dropWhile inlineChar mid @ tail"
    by (simp add: dropWhile_append1)
  from x have "dropWhile inlineChar mid \<noteq> []"
    by (auto simp: dropWhile_eq_Nil_conv)
  then obtain y r' where yr: "dropWhile inlineChar mid = y # r'"
    by (cases "dropWhile inlineChar mid") auto
  then have "y \<in> set mid" by (metis list.set_intros(1) set_dropWhileD)
  with assms(1) have "y \<noteq> 36" by auto
  with dw yr show "dropWhile inlineChar (mid @ tail) \<noteq> 36 # r" by simp
qed

lemma scan_two_dollars:
  assumes "36 \<notin> set pre" and "36 \<notin> set mid" and "36 \<notin> set post" and "list_ex isLineTerminator mid"
  shows "scanMatches reInline 0 [] [] (pre @ 36 # mid @ 36 # post) = ([], pre @ 36 # mid @ 36 # post)"
proof -
  have "scanMatches reInline 0 [] [] (pre @ 36 # mid @ 36 # post)
      = scanMatches reInline 0 (rev pre) (rev pre) (36 # mid @ 36 # post)"
    using scan_reInline_no_dollar [OF assms(1), of "[]" "[]"] by simp
  also have "\<dots> = scanMatches reInline 0 (36 # rev pre) (36 # rev pre) (mid @ 36 # post)"
    using exec_reInline_line_break [OF assms(2,4), of "rev pre" "36 # post"] by simp
  also have "\<dots> = scanMatches reInline 0 (rev mid @ 36 # rev pre) (rev mid @ 36 # rev pre) (36 # post)"
    by (rule scan_reInline_no_dollar [OF assms(2)])
  also have "\<dots> = scanMatches reInline 0 (36 # rev mid @ 36 # rev pre) (36 # rev mid @ 36 # rev pre) post"
    using exec_reInline_unclosed [OF assms(3)] by simp
  also have "\<dots> = scanMatches reInline 0 (rev post @ 36 # rev mid @ 36 # rev pre)
      (rev post @ 36 # rev mid @ 36 # rev pre) []"
    using scan_reInline_no_dollar [OF assms(3), of _ _ "[]"] by simp
  also have "\<dots> = ([], pre @ 36 # mid @ 36 # post)"
    by (simp add: exec_reInline)
  finally show ?thesis .
qed

text \<open>
  Claim C10, as the code has it.  No span that the inline pass replaces holds a line terminator,
  so a dollar sign is never paired with one on a later line.  When a text has two dollar
  signs only and a line break between them, the pass extracts nothing and leaves the text as
  it is.
\<close>

theorem inline_math_within_a_line:
  "(seg \<in> set (fst (scanMatches reInline 0 [] [] s))
      \<longrightarrow> \<not> list_ex isLineTerminator (matched (snd seg)))
   \<and> (36 \<notin> set pre \<and> 36 \<notin> set mid \<and> 36 \<notin> set post \<and> list_ex isLineTerminator mid
      \<longrightarrow> replaceSt reInline (saveMath False) (pre @ 36 # mid @ 36 # post) st
          = Some (pre @ 36 # mid @ 36 # post, st))"
proof (intro conjI impI)
  assume "seg \<in> set (fst (scanMatches reInline 0 [] [] s))"
  then obtain b' s' where "exec reInline b' s' = Some (snd seg)"
    using scanMatches_matches by blast
  then show "\<not> list_ex isLineTerminator (matched (snd seg))"
    by (rule lineTerminator_free_match)
next
  assume "36 \<notin> set pre \<and> 36 \<notin> set mid \<and> 36 \<notin> set post \<and> list_ex isLineTerminator mid"
  then show "replaceSt reInline (saveMath False) (pre @ 36 # mid @ 36 # post) st
      = Some (pre @ 36 # mid @ 36 # post, st)"
    by (simp add: replaceSt_def scan_two_dollars)
qed

lemma scan_one_fragment:
  "scanMatches reInline 0 [] [] (js ''$b$'')
   = ([([], \<lparr>matched = js ''$b$'', groups = [1 \<mapsto> js ''b''], ngroup = 1, before = [], after = []\<rparr>)], [])"
  by (simp add: exec_reInline js_def inlineChar_def isLineTerminator_def)

theorem inline_math_within_a_line_witness:
  "([], \<lparr>matched = js ''$b$'', groups = [1 \<mapsto> js ''b''], ngroup = 1, before = [], after = []\<rparr>)
      \<in> set (fst (scanMatches reInline 0 [] [] (js ''$b$'')))
   \<and> \<not> list_ex isLineTerminator (js ''$b$'')
   \<and> 36 \<notin> set (js ''a '') \<and> 36 \<notin> set (js ''x'' @ 10 # js ''y'') \<and> 36 \<notin> set (js '' b'')
   \<and> list_ex isLineTerminator (js ''x'' @ 10 # js ''y'')
   \<and> replaceSt reInline (saveMath False) (js ''a '' @ 36 # (js ''x'' @ 10 # js ''y'') @ 36 # js '' b'') ([], 0)
       = Some (js ''a '' @ 36 # (js ''x'' @ 10 # js ''y'') @ 36 # js '' b'', ([], 0))"
  using inline_math_within_a_line [of
      "([], \<lparr>matched = js ''$b$'', groups = [1 \<mapsto> js ''b''], ngroup = 1, before = [], after = []\<rparr>)"
      "js ''$b$''" "js ''a ''" "js ''x'' @ 10 # js ''y''" "js '' b''" "([], 0)"]
  by (simp add: scan_one_fragment) (simp add: js_def isLineTerminator_def)

text \<open>
  A dollar sign after the line break can still open a fragment with a later one: of the two
  dollar signs that the line break separates, the second does not stay in the text.
\<close>

lemma second_dollar_display:
  "saveAll displayPasses (js ''$a'' @ 10 # js ''$b$'') ([], 0) = Some (js ''$a'' @ 10 # js ''$b$'', [], 0)"
  by (simp add: passes skips strs)

lemma second_dollar_inline:
  \<open>replaceSt reInline (saveMath False) (js ''$a'' @ 10 # js ''$b$'') ([], 0)
   = Some (js ''$a'' @ 10 # js ''__MATH_INLINE_0__'',
           [(js ''__MATH_INLINE_0__'', js ''<span data-math="b" data-display="false"></span>'')], 1)\<close>
  by (simp add: strs replaceSt_def exec_reInline inlineChar_def isLineTerminator_def saveMath_def
      mathKey_def mathContainer_def decimal.simps trim_def isSpace_def)

theorem second_dollar_is_consumed:
  \<open>protectMath (js ''$a'' @ 10 # js ''$b$'')
   = Some (js ''$a'' @ 10 # js ''__MATH_INLINE_0__'',
           [(js ''__MATH_INLINE_0__'', js ''<span data-math="b" data-display="false"></span>'')], 1)\<close>
  by (simp add: protectMath_def second_dollar_display second_dollar_inline)

section \<open>Totality\<close>

lemma setsGroup_patterns:
  "setsGroup 1 reBracket" "setsGroup 1 reDollars" "setsGroup 1 (reEnv name)" "setsGroup 1 (reEnv1 name)"
  "setsGroup 1 reInline" "setsGroup 1 reFigure" "setsGroup 1 reIncludegraphics"
  by (simp_all add: reBracket_def reDollars_def reEnv_def reEnv1_def reInline_def reFigure_def
      reIncludegraphics_def Plus_def Opt_def)

lemma saveMath_total: "groups mt 1 \<noteq> None \<Longrightarrow> saveMath display mt st \<noteq> None"
  by (cases st) (auto simp: saveMath_def)

lemma saveAll_total:
  assumes "\<And>r. r \<in> set rs \<Longrightarrow> setsGroup 1 r"
  shows "\<exists>res. saveAll rs s st = Some res"
  using assms
proof (induction rs arbitrary: s st)
  case Nil
  then show ?case by simp
next
  case (Cons r rs)
  have "setsGroup 1 r" by (rule Cons.prems) (rule list.set_intros(1))
  from replaceSt_total [of 1 "saveMath True" r s st, OF saveMath_total this]
  obtain s' st' where r: "replaceSt r (saveMath True) s st = Some (s', st')" by auto
  have "\<exists>res. saveAll rs s' st' = Some res"
    by (rule Cons.IH) (rule Cons.prems, rule list.set_intros(2))
  with r show ?case by simp
qed

lemma protectMath_total: "\<exists>res. protectMath s = Some res"
proof -
  have "\<And>r. r \<in> set displayPasses \<Longrightarrow> setsGroup 1 r"
    unfolding displayPasses_def using setsGroup_patterns by auto
  from saveAll_total [of displayPasses s "([], 0)", OF this]
  obtain s' st' where d: "saveAll displayPasses s ([], 0) = Some (s', st')" by auto
  from replaceSt_total [of 1 "saveMath False" reInline s' st', OF saveMath_total setsGroup_patterns(5)]
  obtain res where "replaceSt reInline (saveMath False) s' st' = Some res" by auto
  with d have "protectMath s = Some res" by (simp add: protectMath_def)
  then show ?thesis by blast
qed

lemma environments_total: "\<exists>res. environments s = Some res"
proof -
  have it: "\<And>mt. groups mt 1 \<noteq> None \<Longrightarrow> itemizeFn mt \<noteq> None"
    and en: "\<And>mt. groups mt 1 \<noteq> None \<Longrightarrow> enumerateFn mt \<noteq> None"
    and fi: "\<And>mt. groups mt 1 \<noteq> None \<Longrightarrow> figureFn mt \<noteq> None"
    and ig: "\<And>mt. groups mt 1 \<noteq> None \<Longrightarrow> includegraphicsFn mt \<noteq> None"
    and ve: "\<And>mt. groups mt 1 \<noteq> None \<Longrightarrow> verbatimFn mt \<noteq> None"
    by (auto simp: itemizeFn_def enumerateFn_def figureFn_def includegraphicsFn_def verbatimFn_def)
  obtain s1 where s1: "replaceFn (reEnv1 ''itemize'') itemizeFn s = Some s1"
    using replaceFn_total [of 1 itemizeFn, OF it setsGroup_patterns(4)] by blast
  obtain s2 where s2: "replaceFn (reEnv1 ''enumerate'') enumerateFn s1 = Some s2"
    using replaceFn_total [of 1 enumerateFn, OF en setsGroup_patterns(4)] by blast
  obtain s3 where s3: "replaceFn reFigure figureFn (applyAll notePasses s2) = Some s3"
    using replaceFn_total [of 1 figureFn, OF fi setsGroup_patterns(6)] by blast
  obtain s4 where s4: "replaceFn reIncludegraphics includegraphicsFn s3 = Some s4"
    using replaceFn_total [of 1 includegraphicsFn, OF ig setsGroup_patterns(7)] by blast
  obtain s5 where s5: "replaceFn (reEnv1 ''verbatim'') verbatimFn s4 = Some s5"
    using replaceFn_total [of 1 verbatimFn, OF ve setsGroup_patterns(4)] by blast
  from s1 s2 s3 s4 s5 show ?thesis by (simp add: environments_def)
qed

lemma transform_total: "\<exists>res. transform s = Some res"
proof -
  obtain titleHtml html where st: "structureSecond (structureFirst (stripPreamble s)) = (titleHtml, html)"
    by (cases "structureSecond (structureFirst (stripPreamble s))")
  from environments_total [of html] obtain html' where "environments html = Some html'" by auto
  with st show ?thesis by (simp add: transform_def)
qed

lemma convert_empty: "convertLaTeXToHTML [] = Some []"
proof -
  have p: "protectMath [] = Some ([], [], 0)"
    by (simp add: protectMath_def passes skips strs)
  have t: "transform [] = Some ([], [])"
    by (rule transform_plain) (simp_all add: js_def)
  have g: "paragraphize [] = []"
    by (simp add: paragraphize_def skips wrapPara_def trim_def strs)
  show ?thesis
    by (simp add: convertLaTeXToHTML_def p t g restore_def)
qed

text \<open>
  Run one after the other, the statements of the body return a string for every input string
  (in the model, whose strings have no bound on their length): no callback meets a capture
  that took no part in its match, the only TypeError the statements could throw.  The empty
  input gives the empty output.
\<close>

lemma statements_return:
  "(\<exists>out. convertLaTeXToHTML s = Some out) \<and> convertLaTeXToHTML [] = Some []"
proof
  from protectMath_total [of s] obtain html mathBlocks mathCounter
    where p: "protectMath s = Some (html, mathBlocks, mathCounter)" by (metis prod_cases3)
  from transform_total [of html] obtain titleHtml html' where "transform html = Some (titleHtml, html')"
    by (metis surj_pair)
  with p show "\<exists>out. convertLaTeXToHTML s = Some out"
    by (simp add: convertLaTeXToHTML_def)
  show "convertLaTeXToHTML [] = Some []" by (rule convert_empty)
qed

text \<open>
  Claim C9, which the code fails.  The body declares \<^verbatim>\<open>titleMatch\<close>, \<^verbatim>\<open>authorMatch\<close>,
  \<^verbatim>\<open>dateMatch\<close> and \<^verbatim>\<open>titleHtml\<close> twice in one scope, so the module as it is written is rejected
  with a SyntaxError: whatever the input string, the empty one included, no markup is
  returned.
\<close>

theorem redeclarations_reject_every_input:
  "convertLaTeXToHTML_module s = Inl SyntaxError"
  by (simp add: convertLaTeXToHTML_module_def earlyError_def lexicallyDeclaredNames_def)

section \<open>Paragraphs\<close>

lemma replaceLit_single: "replaceLit [c] [d] s = map (\<lambda>x. if x = c then d else x) s"
  by (induction s) auto

lemma exec_reSpaces:
  "exec reSpaces b s =
     (case s of
        x # t \<Rightarrow>
          if isSpace x
          then Some \<lparr>matched = x # takeWhile isSpace t, groups = (\<lambda>i. None), ngroup = 0,
                      before = rev b, after = dropWhile isSpace t\<rparr>
          else None
      | _ \<Rightarrow> None)"
  using take_upto_dropWhile [of "[hd s]" "tl s" isSpace]
  by (auto simp: exec_def reSpaces_def Plus_def rest_def caps_def star_greedy_cls_total
      split: list.splits)

lemma render_scan_reSpaces:
  "render [32] (scanMatches reSpaces 0 b u s) = rev u @ collapseSpaces s"
proof (induction s arbitrary: b u rule: collapseSpaces.induct)
  case 1
  then show ?case by (simp add: render_def exec_reSpaces)
next
  case (2 x t)
  show ?case
  proof (cases "isSpace x")
    case True
    have "scanMatches reSpaces (length (takeWhile isSpace t)) (x # b) []
            (takeWhile isSpace t @ dropWhile isSpace t)
          = scanMatches reSpaces 0 (rev (takeWhile isSpace t) @ x # b) [] (dropWhile isSpace t)"
      by (rule scanMatches_skip_prefix)
    then have sk: "scanMatches reSpaces (length (takeWhile isSpace t)) (x # b) [] t
          = scanMatches reSpaces 0 (rev (takeWhile isSpace t) @ x # b) [] (dropWhile isSpace t)"
      by simp
    from True "2.IH"(1) [of "rev (takeWhile isSpace t) @ x # b" "[]"]
    have "render [32] (scanMatches reSpaces 0 (rev (takeWhile isSpace t) @ x # b) [] (dropWhile isSpace t))
          = collapseSpaces (dropWhile isSpace t)"
      by simp
    with True sk show ?thesis
      by (simp add: exec_reSpaces render_step)
  next
    case False
    from False "2.IH"(2) [of "x # b" "x # u"] show ?thesis
      by (auto simp: exec_reSpaces)
  qed
qed

lemma join_lines_passes:
  "(if 10 \<in> set para then replaceAll reSpaces (js '' '') (replaceAll reNewline (js '' '') para)
    else para) = joinLines para"
proof -
  have sp: "js '' '' = [32]" by (simp add: js_def)
  have "replaceAll reNewline [32] para = map (\<lambda>c. if c = 10 then 32 else c) para"
    by (simp add: reNewline_def replaceAll_Lit replaceLit_single)
  moreover have "\<And>t. replaceAll reSpaces [32] t = collapseSpaces t"
    by (simp add: replaceAll_render render_scan_reSpaces)
  ultimately show ?thesis
    by (simp add: joinLines_def sp)
qed

lemma trim_not_blank:
  assumes "trim s \<noteq> []"
  shows "\<not> isSpace (hd (trim s))"
proof -
  let ?d = "dropWhile isSpace s"
  have d: "?d \<noteq> []"
  proof
    assume e: "?d = []"
    have "trim s = []" unfolding trim_def e by simp
    with assms show False by simp
  qed
  then have h: "\<not> isSpace (hd ?d)" by (metis hd_dropWhile)
  have r: "dropWhile isSpace (rev ?d) \<noteq> []"
  proof
    assume e: "dropWhile isSpace (rev ?d) = []"
    have "trim s = []" unfolding trim_def e by simp
    with assms show False by simp
  qed
  have "suffix (dropWhile isSpace (rev ?d)) (rev ?d)" by (rule suffix_dropWhile)
  then obtain p where p: "rev ?d = p @ dropWhile isSpace (rev ?d)" by (auto simp: suffix_def)
  from r p have "last (dropWhile isSpace (rev ?d)) = last (rev ?d)" by (metis last_appendR)
  also from d have "\<dots> = hd ?d" by (simp add: last_rev)
  finally have "last (dropWhile isSpace (rev ?d)) = hd ?d" .
  moreover have "hd (trim s) = last (dropWhile isSpace (rev ?d))"
    unfolding trim_def by (rule hd_rev)
  ultimately have "hd (trim s) = hd ?d" by simp
  with h show ?thesis by simp
qed

lemma joinLines_head:
  assumes "para \<noteq> []" and "\<not> isSpace (hd para)"
  shows "joinLines para \<noteq> [] \<and> hd (joinLines para) = hd para"
proof -
  from assms obtain x t where para: "para = x # t" and x: "\<not> isSpace x" by (cases para) auto
  from x have "x \<noteq> 10" by (auto simp: isSpace_def)
  with para x show ?thesis by (simp add: joinLines_def)
qed

lemma paragraphize_concat: "paragraphize html = concat (map wrapPara (splitRe reBlankLines html))"
proof -
  have "\<And>xs :: jsstring list. concat (filter (\<lambda>p. length p > 0) xs) = concat xs"
  proof -
    fix xs :: "jsstring list"
    show "concat (filter (\<lambda>p. length p > 0) xs) = concat xs" by (induction xs) auto
  qed
  then show ?thesis by (simp add: paragraphize_def)
qed

lemma digit_1_6: "(49 \<le> x \<and> x \<le> (54::nat)) = (x = 49 \<or> x = 50 \<or> x = 51 \<or> x = 52 \<or> x = 53 \<or> x = 54)"
  by arith

lemma test_matches: "test (Seq Bol r) s = matches (Seq Bol r) Some ([], s, \<lambda>i. None)"
  by (simp add: test_Bol exec_def matches_def split: option.splits)

lemma test_reBlockTag_unfolded:
  "test reBlockTag s =
    (prefix [60] s \<and>
      (prefix [104] (drop 1 s) \<and> drop 1 (drop 1 s) \<noteq> [] \<and> 49 \<le> hd (drop 1 (drop 1 s)) \<and> hd (drop 1 (drop 1 s)) \<le> 54
       \<or> prefix (js ''ul'') (drop 1 s) \<or> prefix (js ''ol'') (drop 1 s) \<or> prefix (js ''div'') (drop 1 s)
       \<or> prefix (js ''figure'') (drop 1 s) \<or> prefix (js ''img'') (drop 1 s)
       \<or> prefix (js ''table'') (drop 1 s) \<or> prefix (js ''blockquote'') (drop 1 s)
       \<or> prefix (js ''pre'') (drop 1 s) \<or> prefix (js ''br'') (drop 1 s)))"
  unfolding reBlockTag_def seqs.simps alts.simps test_matches
  by (simp add: matches_Seq_Bol matches_Seq_Lit matches_Grp matches_Alt matches_Lit matches_Cls
      js_def split: prod.splits)

lemma test_reBlockTag: "test reBlockTag s = list_ex (\<lambda>tag. prefix tag s) blockTags"
proof (cases s)
  case Nil
  then show ?thesis
    by (simp add: test_reBlockTag_unfolded blockTags_def js_def)
next
  case s: (Cons x s1)
  show ?thesis
  proof (cases s1)
    case Nil
    with s show ?thesis
      by (simp add: test_reBlockTag_unfolded blockTags_def js_def)
  next
    case s1: (Cons y s2)
    show ?thesis
    proof (cases s2)
      case Nil
      with s s1 show ?thesis
        by (simp add: test_reBlockTag_unfolded blockTags_def js_def)
    next
      case (Cons z s3)
      with s s1 show ?thesis
        by (simp add: test_reBlockTag_unfolded blockTags_def js_def digit_1_6 conj_disj_distribL
            disj_ac)
    qed
  qed
qed

text \<open>
  Claim C4, as the code has it.  A segment that is empty once trimmed gives nothing; one that
  begins with a block-level opening tag is passed through as it is, trimmed; any other is
  wrapped in a paragraph container around the trimmed segment, in which, when it holds a
  newline, every newline has become a space and every run of whitespace one space.  That
  content is not empty: it begins with a character that is not whitespace.  The result of the
  pass is the results of the segments, one after the other.
\<close>

theorem paragraph_wrapping:
  \<open>(trim para0 = [] \<longrightarrow> wrapPara para0 = [])
   \<and> (trim para0 \<noteq> [] \<and> list_ex (\<lambda>tag. prefix tag (trim para0)) blockTags
        \<longrightarrow> wrapPara para0 = trim para0)
   \<and> (trim para0 \<noteq> [] \<and> \<not> list_ex (\<lambda>tag. prefix tag (trim para0)) blockTags
        \<longrightarrow> wrapPara para0
              = js ''<p class="mb-4 leading-relaxed text-gray-200">'' @ joinLines (trim para0) @ js ''</p>''
            \<and> joinLines (trim para0) \<noteq> [] \<and> \<not> isSpace (hd (joinLines (trim para0))))
   \<and> paragraphize html = concat (map wrapPara (splitRe reBlankLines html))\<close>
proof (intro conjI impI)
  assume "trim para0 = []"
  then show "wrapPara para0 = []" by (simp add: wrapPara_def)
next
  assume "trim para0 \<noteq> [] \<and> list_ex (\<lambda>tag. prefix tag (trim para0)) blockTags"
  then show "wrapPara para0 = trim para0"
    by (simp add: wrapPara_def test_reBlockTag)
next
  assume a: "trim para0 \<noteq> [] \<and> \<not> list_ex (\<lambda>tag. prefix tag (trim para0)) blockTags"
  then show \<open>wrapPara para0
      = js ''<p class="mb-4 leading-relaxed text-gray-200">'' @ joinLines (trim para0) @ js ''</p>''\<close>
    unfolding join_lines_passes [symmetric] by (simp add: wrapPara_def test_reBlockTag)
  from a have ne: "trim para0 \<noteq> []" by simp
  then have "\<not> isSpace (hd (trim para0))" by (rule trim_not_blank)
  with ne have j: "joinLines (trim para0) \<noteq> [] \<and> hd (joinLines (trim para0)) = hd (trim para0)"
    by (rule joinLines_head)
  from j show "joinLines (trim para0) \<noteq> []" by simp
  from j \<open>\<not> isSpace (hd (trim para0))\<close> show "\<not> isSpace (hd (joinLines (trim para0)))" by simp
next
  show "paragraphize html = concat (map wrapPara (splitRe reBlankLines html))"
    by (rule paragraphize_concat)
qed

theorem paragraph_wrapping_witness:
  \<open>trim (js ''  '') = [] \<and> wrapPara (js ''  '') = []
   \<and> trim (js ''<ul>x '') \<noteq> [] \<and> list_ex (\<lambda>tag. prefix tag (trim (js ''<ul>x ''))) blockTags
   \<and> wrapPara (js ''<ul>x '') = js ''<ul>x''
   \<and> trim (js '' a'' @ 10 # js '' b '') \<noteq> []
   \<and> \<not> list_ex (\<lambda>tag. prefix tag (trim (js '' a'' @ 10 # js '' b ''))) blockTags
   \<and> wrapPara (js '' a'' @ 10 # js '' b '') = js ''<p class="mb-4 leading-relaxed text-gray-200">a b</p>''\<close>
proof -
  have t: "trim (js ''  '') = []" "trim (js ''<ul>x '') = js ''<ul>x''"
    "trim (js '' a'' @ 10 # js '' b '') = js ''a'' @ 10 # js '' b''"
    by (simp_all add: trim_def isSpace_def js_def)
  have b: "list_ex (\<lambda>tag. prefix tag (js ''<ul>x'')) blockTags"
    "\<not> list_ex (\<lambda>tag. prefix tag (js ''a'' @ 10 # js '' b'')) blockTags"
    by (simp_all add: blockTags_def js_def)
  have n: "js ''<ul>x'' \<noteq> []" "js ''a'' @ 10 # js '' b'' \<noteq> []"
    by (simp_all add: js_def)
  have j: "joinLines (js ''a'' @ 10 # js '' b'') = js ''a b''"
    by (simp add: joinLines_def isSpace_def js_def)
  have p: \<open>js ''<p class="mb-4 leading-relaxed text-gray-200">'' @ js ''a b'' @ js ''</p>''
      = js ''<p class="mb-4 leading-relaxed text-gray-200">a b</p>''\<close>
    by (simp add: js_def)
  show ?thesis
    using paragraph_wrapping [of "js ''  ''"] paragraph_wrapping [of "js ''<ul>x ''"]
      paragraph_wrapping [of "js '' a'' @ 10 # js '' b ''"]
    unfolding t j p using b n by simp
qed

text \<open>
  The pass looks at the start of each segment only, and at no markup that the segment holds.
  A heading after the start of a segment is wrapped with it: the input \<^verbatim>\<open>x\section{A}\<close>
  gives a paragraph container with the heading inside.  A closing tag at the start of a
  segment closes the container right after its opening tag: the input \<^verbatim>\<open></p>\<close> gives an
  output that holds an empty paragraph container.
\<close>

lemma heading_protect:
  "protectMath (js ''x'' @ cmd ''section{A}'') = Some (js ''x'' @ cmd ''section{A}'', [], 0)"
  by (simp add: protectMath_def passes skips strs)

lemma heading_strip: "stripPreamble (js ''x'' @ cmd ''section{A}'') = js ''x'' @ cmd ''section{A}''"
  by (simp add: stripPreamble_def passes skips strs)

lemma heading_section:
  \<open>replaceAll (reStarArg ''section'')
     (js ''<h2 class="text-4xl font-bold mt-12 mb-6 text-white border-b-2 border-orange-500 pb-3">$1</h2>'')
     (js ''x'' @ cmd ''section{A}'')
   = js ''x<h2 class="text-4xl font-bold mt-12 mb-6 text-white border-b-2 border-orange-500 pb-3">A</h2>''\<close>
  by (simp add: replaceAll_def engine strs reStarArg_def)

lemma heading_first:
  \<open>structureFirst (js ''x'' @ cmd ''section{A}'')
   = js ''x<h2 class="text-4xl font-bold mt-12 mb-6 text-white border-b-2 border-orange-500 pb-3">A</h2>''\<close>
  by (simp add: structureFirst_def passes skips strs heading_section [unfolded strs, simplified])

lemma heading_plain:
  \<open>BS \<notin> set (js ''x<h2 class="text-4xl font-bold mt-12 mb-6 text-white border-b-2 border-orange-500 pb-3">A</h2>'')\<close>
  \<open>36 \<notin> set (js ''x<h2 class="text-4xl font-bold mt-12 mb-6 text-white border-b-2 border-orange-500 pb-3">A</h2>'')\<close>
  \<open>\<not> sublist (js ''--'') (js ''x<h2 class="text-4xl font-bold mt-12 mb-6 text-white border-b-2 border-orange-500 pb-3">A</h2>'')\<close>
  \<open>\<not> sublist (js ''``'') (js ''x<h2 class="text-4xl font-bold mt-12 mb-6 text-white border-b-2 border-orange-500 pb-3">A</h2>'')\<close>
  \<open>\<not> sublist [39, 39] (js ''x<h2 class="text-4xl font-bold mt-12 mb-6 text-white border-b-2 border-orange-500 pb-3">A</h2>'')\<close>
  by (simp_all add: strs sublist_Cons_right)

lemma heading_transform:
  \<open>transform (js ''x'' @ cmd ''section{A}'')
   = Some ([], js ''x<h2 class="text-4xl font-bold mt-12 mb-6 text-white border-b-2 border-orange-500 pb-3">A</h2>'')\<close>
  by (simp add: transform_def heading_strip heading_first structureSecond_plain environments_plain
      finish_plain heading_plain)

lemma heading_paragraphize:
  \<open>paragraphize (js ''x<h2 class="text-4xl font-bold mt-12 mb-6 text-white border-b-2 border-orange-500 pb-3">A</h2>'')
   = js ''<p class="mb-4 leading-relaxed text-gray-200">x<h2 class="text-4xl font-bold mt-12 mb-6 text-white border-b-2 border-orange-500 pb-3">A</h2></p>''\<close>
  by (simp add: paragraphize_def wrapPara_def skips strs test_reBlockTag blockTags_def trim_def
      isSpace_def)

lemma heading_convert:
  \<open>convertLaTeXToHTML (js ''x'' @ cmd ''section{A}'')
   = Some (js ''<p class="mb-4 leading-relaxed text-gray-200">x<h2 class="text-4xl font-bold mt-12 mb-6 text-white border-b-2 border-orange-500 pb-3">A</h2></p>'')\<close>
  by (simp add: convertLaTeXToHTML_def heading_protect heading_transform heading_paragraphize
      restore_def)

lemma closing_tag_protect: "protectMath (js ''</p>'') = Some (js ''</p>'', [], 0)"
  by (simp add: protectMath_def passes skips strs)

lemma closing_tag_transform: "transform (js ''</p>'') = Some ([], js ''</p>'')"
  by (rule transform_plain) (simp_all add: strs sublist_Cons_right)

lemma closing_tag_paragraphize:
  \<open>paragraphize (js ''</p>'') = js ''<p class="mb-4 leading-relaxed text-gray-200"></p></p>''\<close>
  by (simp add: paragraphize_def wrapPara_def skips strs test_reBlockTag blockTags_def trim_def
      isSpace_def)

lemma closing_tag_convert:
  \<open>convertLaTeXToHTML (js ''</p>'') = Some (js ''<p class="mb-4 leading-relaxed text-gray-200"></p></p>'')\<close>
  by (simp add: convertLaTeXToHTML_def closing_tag_protect closing_tag_transform
      closing_tag_paragraphize restore_def)

theorem heading_inside_and_empty_paragraph:
  \<open>convertLaTeXToHTML (js ''x'' @ cmd ''section{A}'')
     = Some (js ''<p class="mb-4 leading-relaxed text-gray-200">x<h2 class="text-4xl font-bold mt-12 mb-6 text-white border-b-2 border-orange-500 pb-3">A</h2></p>'')
   \<and> convertLaTeXToHTML (js ''</p>'')
     = Some (js ''<p class="mb-4 leading-relaxed text-gray-200"></p></p>'')
   \<and> sublist (js ''<p class="mb-4 leading-relaxed text-gray-200"></p>'')
       (js ''<p class="mb-4 leading-relaxed text-gray-200"></p></p>'')\<close>
proof -
  have \<open>js ''<p class="mb-4 leading-relaxed text-gray-200"></p></p>''
      = [] @ js ''<p class="mb-4 leading-relaxed text-gray-200"></p>'' @ js ''</p>''\<close>
    by (simp add: js_def)
  then have \<open>sublist (js ''<p class="mb-4 leading-relaxed text-gray-200"></p>'')
       (js ''<p class="mb-4 leading-relaxed text-gray-200"></p></p>'')\<close>
    unfolding sublist_def by blast
  with heading_convert closing_tag_convert show ?thesis by simp
qed
section \<open>Placeholder tokens\<close>



































section \<open>Verbatim\<close>





















end
